theory Spec2Isabelle
  imports Main
begin

section \<open>Machine integers\<close>

text \<open>
  Packet numbers, times and byte counts are \<open>uint64_t\<close> in the source. They are modelled
  as natural numbers below \<open>2 ^ 64\<close>; the two operations that can leave that range are
  written with their wrap-around.
\<close>

definition u64_add :: "nat \<Rightarrow> nat \<Rightarrow> nat" where
  "u64_add a b = (a + b) mod 2 ^ 64"

definition u64_sub :: "nat \<Rightarrow> nat \<Rightarrow> nat" where
  "u64_sub a b = (a + 2 ^ 64 - b mod 2 ^ 64) mod 2 ^ 64"

section \<open>Received-packet history (quic\_packet\_sorter.cc)\<close>

text \<open>\<open>struct PacketInterval\<close>: a closed interval of packet numbers.\<close>

datatype PacketInterval = PacketInterval (m_start: nat) (m_end: nat)

text \<open>
  \<open>class ReceivedPacketHistory\<close>: \<open>m_ranges\<close> is the \<open>std::list\<close> of intervals in
  ascending order (front = lowest), \<open>m_deleted_below\<close> the watermark.
\<close>

record ReceivedPacketHistory =
  m_ranges :: "PacketInterval list"
  m_deleted_below :: nat

definition MAX_NUMBER_ACK_RANGES :: nat where
  "MAX_NUMBER_ACK_RANGES = 64"

definition empty_history :: ReceivedPacketHistory where
  "empty_history = \<lparr>m_ranges = [], m_deleted_below = 0\<rparr>"

text \<open>
  The loop of \<open>addToRanges\<close> walks the list with a reverse iterator, from the highest
  interval to the lowest. \<open>addToRanges_walk pn ds\<close> is that loop on the part \<open>ds\<close> of the
  list that is still to be visited, highest interval first; it returns the rewritten part
  and the function's return value. The five cases are in the order of the source.
\<close>

fun addToRanges_walk :: "nat \<Rightarrow> PacketInterval list \<Rightarrow> PacketInterval list \<times> bool" where
  "addToRanges_walk pn [] = ([PacketInterval pn pn], True)"
| "addToRanges_walk pn (PacketInterval s e # ds) =
     (if s \<le> pn \<and> pn \<le> e then (PacketInterval s e # ds, False)
      else if e = u64_sub pn 1 then (PacketInterval s pn # ds, True)
      else if s = u64_add pn 1 then
        (case ds of
           [] \<Rightarrow> ([PacketInterval pn e], True)
         | PacketInterval ps pe # ds' \<Rightarrow>
             if u64_add pe 1 = pn then (PacketInterval ps e # ds', True)
             else (PacketInterval pn e # ds, True))
      else if e < pn then (PacketInterval pn pn # PacketInterval s e # ds, True)
      else (case addToRanges_walk pn ds of (r, b) \<Rightarrow> (PacketInterval s e # r, b)))"

definition addToRanges :: "ReceivedPacketHistory \<Rightarrow> nat \<Rightarrow> ReceivedPacketHistory \<times> bool" where
  "addToRanges h pn =
     (if length (m_ranges h) = 0 then (h\<lparr>m_ranges := m_ranges h @ [PacketInterval pn pn]\<rparr>, True)
      else (case addToRanges_walk pn (rev (m_ranges h)) of
              (r, b) \<Rightarrow> (h\<lparr>m_ranges := rev r\<rparr>, b)))"

text \<open>\<open>maybeDeleteOldRanges\<close>: pop the front (lowest) interval while there are more than 64.\<close>

fun maybeDeleteOldRanges_loop :: "PacketInterval list \<Rightarrow> PacketInterval list" where
  "maybeDeleteOldRanges_loop [] = []"
| "maybeDeleteOldRanges_loop (r # rs) =
     (if length (r # rs) > MAX_NUMBER_ACK_RANGES then maybeDeleteOldRanges_loop rs else r # rs)"

definition maybeDeleteOldRanges :: "ReceivedPacketHistory \<Rightarrow> ReceivedPacketHistory" where
  "maybeDeleteOldRanges h = h\<lparr>m_ranges := maybeDeleteOldRanges_loop (m_ranges h)\<rparr>"

definition receivedPacket :: "ReceivedPacketHistory \<Rightarrow> nat \<Rightarrow> ReceivedPacketHistory \<times> bool" where
  "receivedPacket h pn =
     (if pn < m_deleted_below h then (h, False)
      else (case addToRanges h pn of (h', is_new) \<Rightarrow> (maybeDeleteOldRanges h', is_new)))"

text \<open>Calling \<open>receivedPacket\<close> once for each element of a list, in order.\<close>

fun receivedPackets :: "ReceivedPacketHistory \<Rightarrow> nat list \<Rightarrow> ReceivedPacketHistory" where
  "receivedPackets h [] = h"
| "receivedPackets h (pn # pns) = receivedPackets (fst (receivedPacket h pn)) pns"

text \<open>
  \<open>no_discard h pns\<close>: while \<open>receivedPacket\<close> is called for each element of \<open>pns\<close>,
  \<open>addToRanges\<close> never leaves more than \<open>MAX_NUMBER_ACK_RANGES\<close> intervals, so that
  \<open>maybeDeleteOldRanges\<close> has nothing to pop.
\<close>

fun no_discard :: "ReceivedPacketHistory \<Rightarrow> nat list \<Rightarrow> bool" where
  "no_discard h [] = True"
| "no_discard h (pn # pns) =
     (length (m_ranges (fst (addToRanges h pn))) \<le> MAX_NUMBER_ACK_RANGES
      \<and> no_discard (fst (receivedPacket h pn)) pns)"

text \<open>
  The packet numbers covered by a list of intervals, and the shape the list has when
  \<open>addToRanges\<close> built it: visited from the highest interval down, every interval is
  non-empty, ends below \<open>2 ^ 64 - 1\<close>, and leaves a gap of at least one missing packet
  number to the intervals below it.
\<close>

definition covered :: "PacketInterval list \<Rightarrow> nat set" where
  "covered rs = (\<Union>r \<in> set rs. {m_start r .. m_end r})"

definition wf_desc :: "PacketInterval list \<Rightarrow> bool" where
  "wf_desc ds \<longleftrightarrow> (\<forall>r \<in> set ds. m_start r \<le> m_end r \<and> m_end r + 1 < 2 ^ 64)
     \<and> sorted_wrt (\<lambda>a b. m_end b + 1 < m_start a) ds"

text \<open>
  Two orders of the packet numbers 0..255: one that makes the list grow to 65 intervals
  (the even numbers up to 128 first), and the ascending one.
\<close>

definition discarding_order :: "nat list" where
  "discarding_order = map (\<lambda>i. 2 * i) [0..<65] @ [129..<256] @ rev (map (\<lambda>i. 2 * i + 1) [0..<64])"

definition ascending_order :: "nat list" where
  "ascending_order = [0..<256]"

section \<open>ACK frames and the received-packet tracker (quic\_frame.h, quic\_packet\_sorter.cc)\<close>

text \<open>
  \<open>struct AckRange\<close>: a closed range of acknowledged packet numbers. An ACK frame keeps its
  ranges in a vector, the range with the largest packet numbers at index 0.
\<close>

datatype AckRange = AckRange (m_smallest: nat) (m_largest: nat)

text \<open>
  Modelled from the spec: \<open>AckRange::len()\<close>, whose declaration (quic\_type.h) is not among
  the sources. The spec describes the test \<open>len() == 1\<close> of \<open>hasNewMissingPackets\<close> as
  ``the highest range is a single pn'': the length is the number of packet numbers in
  the range.
\<close>

definition AckRange_len :: "AckRange \<Rightarrow> nat" where
  "AckRange_len r = u64_add (u64_sub (m_largest r) (m_smallest r)) 1"

text \<open>\<open>struct QuicAckFrame::EcnSection\<close>: the three ECN counters of an ACK frame.\<close>

record EcnSection =
  m_ect0_count :: nat
  m_ect1_count :: nat
  m_ecn_ce_count :: nat

text \<open>
  \<open>class QuicAckFrame\<close>. The fields of the base class \<open>QuicFrame\<close> that the code of this
  development reads (\<open>m_size\<close>, \<open>m_valid\<close>) are kept; the two callbacks of a frame are
  modelled by the events they cause (see the sent-packet handler).
\<close>

record QuicAckFrame =
  m_ack_ranges :: "AckRange list"
  m_ack_delay :: nat
  m_has_ecn :: bool
  m_ecn_section :: "EcnSection option"
  m_ack_size :: nat
  m_ack_valid :: bool

text \<open>
  \<open>largestAcked\<close> reads \<open>m_ack_ranges[0]\<close> and \<open>lowestAcked\<close> the last range; both are
  undefined behaviour on a frame without ranges, which neither \<open>readFrom\<close> nor
  \<open>getAckFrame\<close> after a received packet produces.
\<close>

definition largestAcked :: "QuicAckFrame \<Rightarrow> nat" where
  "largestAcked f = m_largest (hd (m_ack_ranges f))"

definition lowestAcked :: "QuicAckFrame \<Rightarrow> nat" where
  "lowestAcked f = m_smallest (last (m_ack_ranges f))"

definition hasMissingRanges :: "QuicAckFrame \<Rightarrow> bool" where
  "hasMissingRanges f \<longleftrightarrow> length (m_ack_ranges f) > 1"

text \<open>\<open>getAckRanges\<close>: the intervals of the history, highest first.\<close>

definition getAckRanges :: "ReceivedPacketHistory \<Rightarrow> AckRange list" where
  "getAckRanges h = map (\<lambda>i. AckRange (m_start i) (m_end i)) (rev (m_ranges h))"

text \<open>\<open>getHighestAckRange\<close>: the last interval of the list, \<open>nullptr\<close> when there is none.\<close>

definition getHighestAckRange :: "ReceivedPacketHistory \<Rightarrow> AckRange option" where
  "getHighestAckRange h =
     (if length (m_ranges h) > 0
      then Some (AckRange (m_start (last (m_ranges h))) (m_end (last (m_ranges h))))
      else None)"

text \<open>
  The two configuration values of quic\_packet\_sorter.cc, with their defaults:
  \<open>packets_before_ack\<close> (an \<open>int\<close>) and \<open>max_ack_delay\<close> in microseconds.
\<close>

record AckConfig =
  PacketsBeforeAck :: int
  MAX_ACK_DELAY :: nat

definition default_config :: AckConfig where
  "default_config = \<lparr>PacketsBeforeAck = 2, MAX_ACK_DELAY = 25 * 1000\<rparr>"

record ReceivedPacketTracker =
  m_packet_history :: ReceivedPacketHistory
  m_largest_observed :: nat
  m_ignore_below :: nat
  m_largest_observed_received_time :: nat
  m_has_new_ack :: bool
  m_ack_queued :: bool
  m_ack_eliciting_packets_received_since_last_ack :: int
  m_ack_alarm :: nat
  m_last_ack :: "QuicAckFrame option"

text \<open>
  \<open>hasNewMissingPackets\<close>. The source dereferences the result of \<open>getHighestAckRange\<close>
  without a check: on an empty history that is a null-pointer dereference, the value
  \<open>None\<close> here.
\<close>

definition hasNewMissingPackets :: "ReceivedPacketTracker \<Rightarrow> bool option" where
  "hasNewMissingPackets t =
     (case m_last_ack t of
        None \<Rightarrow> Some False
      | Some la \<Rightarrow>
          (case getHighestAckRange (m_packet_history t) of
             None \<Rightarrow> None
           | Some highest_range \<Rightarrow>
               Some (m_smallest highest_range > u64_add (largestAcked la) 1
                     \<and> AckRange_len highest_range = 1)))"

text \<open>
  \<open>maybeQueueAck\<close>, statement by statement. The result is \<open>None\<close> when
  \<open>hasNewMissingPackets\<close> dereferences a null pointer.
\<close>

definition maybeQueueAck ::
  "AckConfig \<Rightarrow> ReceivedPacketTracker \<Rightarrow> nat \<Rightarrow> nat \<Rightarrow> bool \<Rightarrow> ReceivedPacketTracker option" where
  "maybeQueueAck cfg t pn recv_time was_missing =
     (if m_last_ack t = None then Some (t\<lparr>m_ack_queued := True\<rparr>)
      else if m_ack_queued t then Some t
      else
        let t1 = t\<lparr>m_ack_eliciting_packets_received_since_last_ack :=
                      m_ack_eliciting_packets_received_since_last_ack t + 1\<rparr>;
            t2 = (if was_missing then t1\<lparr>m_ack_queued := True\<rparr> else t1);
            t3 = (if m_ack_eliciting_packets_received_since_last_ack t2 \<ge> PacketsBeforeAck cfg
                  then t2\<lparr>m_ack_queued := True\<rparr>
                  else if m_ack_alarm t2 = 0
                  then t2\<lparr>m_ack_alarm := u64_add recv_time (MAX_ACK_DELAY cfg)\<rparr>
                  else t2)
        in (case hasNewMissingPackets t3 of
              None \<Rightarrow> None
            | Some new_missing \<Rightarrow>
                let t4 = (if new_missing then t3\<lparr>m_ack_queued := True\<rparr> else t3)
                in Some (if m_ack_queued t4 then t4\<lparr>m_ack_alarm := 0\<rparr> else t4)))"

text \<open>\<open>acksPacket\<close> of an ACK frame and \<open>isMissing\<close> of the tracker.\<close>

definition acksPacket :: "QuicAckFrame \<Rightarrow> nat \<Rightarrow> bool" where
  "acksPacket f pn =
     (if pn < lowestAcked f \<or> pn > largestAcked f then False
      else (case dropWhile (\<lambda>r. \<not> pn \<ge> m_smallest r) (m_ack_ranges f) of
              [] \<Rightarrow> False
            | r # _ \<Rightarrow> pn \<le> m_largest r))"

definition isMissing :: "ReceivedPacketTracker \<Rightarrow> nat \<Rightarrow> bool" where
  "isMissing t pn =
     (case m_last_ack t of
        None \<Rightarrow> False
      | Some la \<Rightarrow>
          if pn < m_ignore_below t then False
          else pn < largestAcked la \<and> \<not> acksPacket la pn)"

text \<open>
  \<open>ReceivedPacketTracker::receivedPacket\<close>: the entry point the session calls for every
  packet, with \<open>should_instigate_ack\<close> true for an ack-eliciting packet.
\<close>

definition tracker_receivedPacket ::
  "AckConfig \<Rightarrow> ReceivedPacketTracker \<Rightarrow> nat \<Rightarrow> nat \<Rightarrow> bool \<Rightarrow> ReceivedPacketTracker option" where
  "tracker_receivedPacket cfg t pn recv_time should_instigate_ack =
     (if pn < m_ignore_below t then Some t
      else
        let is_missing = isMissing t pn;
            t1 = (if pn \<ge> m_largest_observed t
                  then t\<lparr>m_largest_observed := pn, m_largest_observed_received_time := recv_time\<rparr>
                  else t);
            (h, is_new) = receivedPacket (m_packet_history t1) pn;
            t2 = t1\<lparr>m_packet_history := h\<rparr>;
            t3 = (if is_new \<and> should_instigate_ack then t2\<lparr>m_has_new_ack := True\<rparr> else t2)
        in if should_instigate_ack then maybeQueueAck cfg t3 pn recv_time is_missing
           else Some t3)"

text \<open>
  \<open>getAckFrame\<close>; \<open>now\<close> is the value \<open>GetCurrentUS()\<close> returns in the call. The frame
  returned is also stored as \<open>m_last_ack\<close>.
\<close>

definition getAckFrame ::
  "ReceivedPacketTracker \<Rightarrow> nat \<Rightarrow> bool \<Rightarrow> ReceivedPacketTracker \<times> QuicAckFrame option" where
  "getAckFrame t now only_if_queued =
     (if \<not> m_has_new_ack t then (t, None)
      else if only_if_queued \<and> \<not> m_ack_queued t \<and> (m_ack_alarm t = 0 \<or> m_ack_alarm t > now)
      then (t, None)
      else
        let delay = (if now < m_largest_observed_received_time t then 0
                     else now - m_largest_observed_received_time t);
            ack = \<lparr>m_ack_ranges = getAckRanges (m_packet_history t), m_ack_delay = delay,
                   m_has_ecn = False, m_ecn_section = None, m_ack_size = 0, m_ack_valid = False\<rparr>
        in (t\<lparr>m_last_ack := Some ack, m_ack_alarm := 0, m_ack_queued := False,
               m_has_new_ack := False,
               m_ack_eliciting_packets_received_since_last_ack := 0\<rparr>, Some ack))"

text \<open>A tracker as the constructor and the member initialisers leave it.\<close>

definition new_tracker :: ReceivedPacketTracker where
  "new_tracker = \<lparr>m_packet_history = empty_history, m_largest_observed = 0, m_ignore_below = 0,
     m_largest_observed_received_time = 0, m_has_new_ack = False, m_ack_queued = False,
     m_ack_eliciting_packets_received_since_last_ack = 0, m_ack_alarm = 0, m_last_ack = None\<rparr>"

text \<open>
  A tracker that has sent an ACK for the packets 1 and 3 and has since received packet 2:
  the input of \<open>maybeQueueAck\<close> when an ack-eliciting packet fills the gap or follows it.
\<close>

definition gap_filling_tracker :: ReceivedPacketTracker where
  "gap_filling_tracker = new_tracker\<lparr>
     m_packet_history := \<lparr>m_ranges = [PacketInterval 1 3], m_deleted_below = 0\<rparr>,
     m_largest_observed := 3,
     m_last_ack := Some \<lparr>m_ack_ranges = [AckRange 3 3, AckRange 1 1], m_ack_delay = 0,
        m_has_ecn = False, m_ecn_section = None, m_ack_size = 0, m_ack_valid = False\<rparr>\<rparr>"

section \<open>Sent-packet history and handler (quic\_packet\_sorter.cc)\<close>

text \<open>
  Modelled from the spec: \<open>class QuicPacket\<close> is declared in quic\_packet.h, which is not
  among the sources. Its data members are those that \<open>QuicPacket::init\<close> (quic\_packet.cc)
  assigns; the three flags are those of the spec's \<open>SentPacket\<close> (declared lost, skipped,
  included in bytes-in-flight), read and written in the source through \<open>declaredLost\<close>,
  \<open>setLost\<close>, \<open>skippedPacket\<close>, \<open>setSkip\<close>, \<open>includedInBytesInflight\<close> and
  \<open>setIncludedInBytesInflight\<close>. The frames of a packet are shared objects that carry
  two callbacks; a frame is represented by an identifier, and a call of its \<open>onLost\<close> or
  \<open>onAcked\<close> by an event.
\<close>

record QuicPacket =
  m_pn :: nat
  m_send_time :: nat
  m_length :: nat
  m_frames :: "nat list"
  m_pkt_largest_acked :: nat
  m_declared_lost :: bool
  m_skipped :: bool
  m_included_in_bytes_inflight :: bool

text \<open>The packet \<open>std::make_shared<QuicPacket>()\<close> with number, time and skip flag set.\<close>

definition placeholder_packet :: "nat \<Rightarrow> nat \<Rightarrow> QuicPacket" where
  "placeholder_packet pn now = \<lparr>m_pn = pn, m_send_time = now, m_length = 0, m_frames = [],
     m_pkt_largest_acked = 2 ^ 64 - 1, m_declared_lost = False, m_skipped = True,
     m_included_in_bytes_inflight = False\<rparr>"

text \<open>
  The calls the handler makes to its collaborators: the callbacks of a frame, and the
  congestion controller (\<open>SendAlgorithm\<close>, \<open>BbrSender\<close>), whose classes are not among the
  sources. Packets are named by their reference.
\<close>

datatype event =
    FrameOnLost nat
  | FrameOnAcked nat
  | OnPacketSent nat nat nat nat bool
  | OnPacketLost nat nat nat
  | OnPacketAcked nat nat nat nat
  | OnCongEvent bool nat nat nat "nat list" "nat list" nat
  | MaybeExitSlowStart

text \<open>
  \<open>class RTTStats\<close> is not among the sources either: its state is a type parameter and
  the five methods the handler calls are passed as a record of functions.
\<close>

record 'r RTTOps =
  latestRTT :: "'r \<Rightarrow> nat"
  smoothedRTT :: "'r \<Rightarrow> nat"
  maxAckDelay :: "'r \<Rightarrow> nat"
  PTO :: "'r \<Rightarrow> nat"
  updateRTT :: "'r \<Rightarrow> nat \<Rightarrow> nat \<Rightarrow> nat \<Rightarrow> 'r"

text \<open>
  \<open>class SentPacketHistory\<close>. \<open>m_packet_list\<close> is a \<open>std::list\<close> of shared pointers: a
  list of nodes, each with an identity (the iterator the map stores) and the reference of
  the packet it points to. \<open>m_packet_map\<close> maps a packet number to a node.
\<close>

record SentPacketHistory =
  m_packet_list :: "(nat \<times> nat) list"
  m_packet_map :: "nat \<Rightarrow> nat option"
  m_highest_sent :: nat
  next_node :: nat

definition new_SentPacketHistory :: SentPacketHistory where
  "new_SentPacketHistory =
     \<lparr>m_packet_list = [], m_packet_map = (\<lambda>_. None), m_highest_sent = 0, next_node = 0\<rparr>"

text \<open>\<open>m_packet_list.push_back(p); m_packet_map[pn] = --m_packet_list.end()\<close>.\<close>

definition history_push_back :: "SentPacketHistory \<Rightarrow> nat \<Rightarrow> nat \<Rightarrow> SentPacketHistory" where
  "history_push_back h ref pn =
     h\<lparr>m_packet_list := m_packet_list h @ [(next_node h, ref)],
       m_packet_map := (m_packet_map h)(pn \<mapsto> next_node h),
       next_node := next_node h + 1\<rparr>"

text \<open>
  \<open>SentPacketHistory::sentPacket\<close>. The packet objects live in \<open>heap\<close>; the packet sent is
  \<open>heap ! ref\<close>, and each placeholder is a new object. A failed \<open>_ASSERT\<close> ends the process:
  the result is \<open>None\<close>.
\<close>

definition history_sentPacket ::
  "QuicPacket list \<Rightarrow> SentPacketHistory \<Rightarrow> nat \<Rightarrow> bool \<Rightarrow> nat
     \<Rightarrow> (QuicPacket list \<times> SentPacketHistory) option" where
  "history_sentPacket heap h ref is_ack_eliciting now =
     (let pn = m_pn (heap ! ref) in
      if pn < m_highest_sent h then None
      else
        let (heap1, h1) =
              fold (\<lambda>pn' (hp, hi). (hp @ [placeholder_packet pn' now],
                                     history_push_back hi (length hp) pn'))
                   [u64_add (m_highest_sent h) 1 ..< pn] (heap, h);
            h2 = h1\<lparr>m_highest_sent := pn\<rparr>
        in Some (if is_ack_eliciting then (heap1, history_push_back h2 ref pn) else (heap1, h2)))"

text \<open>\<open>firstOutstanding\<close> and \<open>hasOutstandingPackets\<close>.\<close>

fun firstOutstanding_loop :: "QuicPacket list \<Rightarrow> (nat \<times> nat) list \<Rightarrow> nat option" where
  "firstOutstanding_loop heap [] = None"
| "firstOutstanding_loop heap ((n, r) # nodes) =
     (if \<not> m_declared_lost (heap ! r) \<and> \<not> m_skipped (heap ! r) then Some r
      else firstOutstanding_loop heap nodes)"

definition firstOutstanding :: "QuicPacket list \<Rightarrow> SentPacketHistory \<Rightarrow> nat option" where
  "firstOutstanding heap h = firstOutstanding_loop heap (m_packet_list h)"

definition hasOutstandingPackets :: "QuicPacket list \<Rightarrow> SentPacketHistory \<Rightarrow> bool" where
  "hasOutstandingPackets heap h \<longleftrightarrow> firstOutstanding heap h \<noteq> None"

text \<open>\<open>remove\<close>: erase the node the map stores for \<open>pn\<close>, and the map entry.\<close>

definition history_remove :: "SentPacketHistory \<Rightarrow> nat \<Rightarrow> SentPacketHistory \<times> bool" where
  "history_remove h pn =
     (case m_packet_map h pn of
        None \<Rightarrow> (h, False)
      | Some node \<Rightarrow>
          (h\<lparr>m_packet_list := filter (\<lambda>(n, r). n \<noteq> node) (m_packet_list h),
             m_packet_map := (m_packet_map h)(pn := None)\<rparr>, True))"

text \<open>
  \<open>deleteOldPackets\<close>: from the front of the list, stop at the first packet sent after
  \<open>now - max_age\<close>, keep the packets that are neither skipped nor declared lost, erase the
  others from the map (by packet number) and from the list.
\<close>

fun deleteOldPackets_loop ::
  "QuicPacket list \<Rightarrow> nat \<Rightarrow> nat \<Rightarrow> (nat \<times> nat) list \<Rightarrow> (nat \<Rightarrow> nat option)
     \<Rightarrow> (nat \<times> nat) list \<times> (nat \<Rightarrow> nat option)" where
  "deleteOldPackets_loop heap now max_age [] mp = ([], mp)"
| "deleteOldPackets_loop heap now max_age ((n, r) # nodes) mp =
     (if u64_sub now max_age < m_send_time (heap ! r) then ((n, r) # nodes, mp)
      else if \<not> m_skipped (heap ! r) \<and> \<not> m_declared_lost (heap ! r)
      then (case deleteOldPackets_loop heap now max_age nodes mp of
              (nodes', mp') \<Rightarrow> ((n, r) # nodes', mp'))
      else deleteOldPackets_loop heap now max_age nodes (mp(m_pn (heap ! r) := None)))"

definition deleteOldPackets ::
  "'r RTTOps \<Rightarrow> 'r \<Rightarrow> QuicPacket list \<Rightarrow> SentPacketHistory \<Rightarrow> nat \<Rightarrow> SentPacketHistory" where
  "deleteOldPackets ops rtt heap h now =
     (let max_age = (3 * PTO ops rtt) mod 2 ^ 64 in
      case deleteOldPackets_loop heap now max_age (m_packet_list h) (m_packet_map h) of
        (nodes, mp) \<Rightarrow> h\<lparr>m_packet_list := nodes, m_packet_map := mp\<rparr>)"

text \<open>
  \<open>class SentPacketHandler\<close>, with the fields of its one \<open>PacketNumberSpace\<close>
  (\<open>m_data_packets\<close>) next to its own. \<open>packets\<close> holds the \<open>QuicPacket\<close> objects that the
  history, \<open>m_acked_packets\<close> and the lists of lost and acked packets point to. \<open>events\<close> is
  the sequence of calls made to the congestion controller and to frame callbacks, latest last.
\<close>

record 'r SentPacketHandler =
  packets :: "QuicPacket list"
  m_history :: SentPacketHistory
  m_loss_time :: nat
  m_last_ack_eliciting_packet_time :: nat
  m_largest_acked :: nat
  m_largest_sent :: nat
  m_send_interval :: nat
  m_bytes_received :: nat
  m_bytes_sent :: nat
  m_lowest_not_confirmed_acked :: nat
  m_acked_packets :: "nat list"
  m_bytes_inflight :: nat
  m_is_bbr :: bool
  m_rtt_stats :: 'r
  m_PTO_count :: nat
  m_num_probes_to_send :: int
  m_alarm :: nat
  events :: "event list"

text \<open>The handler after its constructor (which selects BBR), over the given packet objects.\<close>

definition new_SentPacketHandler :: "'r \<Rightarrow> QuicPacket list \<Rightarrow> 'r SentPacketHandler" where
  "new_SentPacketHandler rtt heap =
     \<lparr>packets = heap, m_history = new_SentPacketHistory, m_loss_time = 0,
      m_last_ack_eliciting_packet_time = 0, m_largest_acked = 0, m_largest_sent = 2 ^ 64 - 1,
      m_send_interval = 0, m_bytes_received = 0, m_bytes_sent = 0,
      m_lowest_not_confirmed_acked = 0, m_acked_packets = [], m_bytes_inflight = 0,
      m_is_bbr = True, m_rtt_stats = rtt, m_PTO_count = 0, m_num_probes_to_send = 0,
      m_alarm = 0, events = []\<rparr>"

definition packetThreshold :: nat where
  "packetThreshold = 3"

text \<open>\<open>removeFromBytesInflight\<close>; \<open>None\<close> is the failed assertion on a negative count.\<close>

definition removeFromBytesInflight :: "'r SentPacketHandler \<Rightarrow> nat \<Rightarrow> 'r SentPacketHandler option" where
  "removeFromBytesInflight s ref =
     (let p = packets s ! ref in
      if m_included_in_bytes_inflight p then
        (if m_length p > m_bytes_inflight s then None
         else Some (s\<lparr>m_bytes_inflight := m_bytes_inflight s - m_length p,
                      packets := (packets s)[ref := p\<lparr>m_included_in_bytes_inflight := False\<rparr>]\<rparr>))
      else Some s)"

text \<open>\<open>setLossDetectionTimer\<close> (its argument only goes to the log).\<close>

definition setLossDetectionTimer :: "'r RTTOps \<Rightarrow> 'r SentPacketHandler \<Rightarrow> 'r SentPacketHandler" where
  "setLossDetectionTimer ops s =
     (if m_loss_time s \<noteq> 0 then s\<lparr>m_alarm := m_loss_time s\<rparr>
      else if \<not> hasOutstandingPackets (packets s) (m_history s) then s\<lparr>m_alarm := 0\<rparr>
      else
        let rtt_pto = PTO ops (m_rtt_stats s);
            pto = (if m_last_ack_eliciting_packet_time s \<noteq> 0
                   then u64_add (m_last_ack_eliciting_packet_time s)
                          ((rtt_pto * 2 ^ m_PTO_count s) mod 2 ^ 64)
                   else 0)
        in s\<lparr>m_alarm := pto\<rparr>)"

text \<open>\<open>sentPacketImpl\<close> and \<open>sentPacket\<close>; \<open>now\<close> is the value of \<open>GetCurrentUS()\<close>.\<close>

definition sentPacketImpl :: "'r SentPacketHandler \<Rightarrow> nat \<Rightarrow> ('r SentPacketHandler \<times> bool) option" where
  "sentPacketImpl s ref =
     (let p = packets s ! ref;
          s1 = s\<lparr>m_largest_sent := m_pn p\<rparr>;
          is_ack_eliciting = (length (m_frames p) > 0);
          s2 = (if is_ack_eliciting then
                  let packet_send_time = m_send_time p;
                      a = (if m_last_ack_eliciting_packet_time s1 \<noteq> 0
                           then s1\<lparr>m_send_interval :=
                                  u64_sub packet_send_time (m_last_ack_eliciting_packet_time s1)\<rparr>
                           else s1);
                      b = a\<lparr>m_last_ack_eliciting_packet_time := packet_send_time,
                            packets := (packets a)[ref := p\<lparr>m_included_in_bytes_inflight := True\<rparr>],
                            m_bytes_inflight := u64_add (m_bytes_inflight a) (m_length p)\<rparr>
                  in (if m_num_probes_to_send b > 0
                      then b\<lparr>m_num_probes_to_send := m_num_probes_to_send b - 1\<rparr> else b)
                else s1)
      in case history_sentPacket (packets s2) (m_history s2) ref is_ack_eliciting (m_send_time p) of
           None \<Rightarrow> None
         | Some (heap, h) \<Rightarrow>
             Some (s2\<lparr>packets := heap, m_history := h,
                      events := events s2 @ [OnPacketSent (m_send_time p) (m_bytes_inflight s2)
                                               (m_pn p) (m_length p) is_ack_eliciting]\<rparr>,
                   is_ack_eliciting))"

definition sentPacket :: "'r RTTOps \<Rightarrow> 'r SentPacketHandler \<Rightarrow> nat \<Rightarrow> nat \<Rightarrow> 'r SentPacketHandler option" where
  "sentPacket ops s ref now =
     (let s1 = s\<lparr>m_bytes_sent := u64_add (m_bytes_sent s) (m_length (packets s ! ref))\<rparr> in
      case sentPacketImpl s1 ref of
        None \<Rightarrow> None
      | Some (s2, is_ack_eliciting) \<Rightarrow>
          let s3 = s2\<lparr>packets := (packets s2)[ref := (packets s2 ! ref)\<lparr>m_send_time := now\<rparr>]\<rparr> in
          (case history_sentPacket (packets s3) (m_history s3) ref is_ack_eliciting now of
             None \<Rightarrow> None
           | Some (heap, h) \<Rightarrow>
               let s4 = s3\<lparr>packets := heap, m_history := h\<rparr> in
               Some (if is_ack_eliciting then setLossDetectionTimer ops s4 else s4)))"

text \<open>
  \<open>queueFramesForRetransmission\<close>: \<open>onLost\<close> for every frame, then the frames are cleared;
  the assertion fails on a packet without frames.
\<close>

definition queueFramesForRetransmission :: "'r SentPacketHandler \<Rightarrow> nat \<Rightarrow> 'r SentPacketHandler option" where
  "queueFramesForRetransmission s ref =
     (let p = packets s ! ref in
      if length (m_frames p) = 0 then None
      else Some (s\<lparr>events := events s @ map FrameOnLost (m_frames p),
                   packets := (packets s)[ref := p\<lparr>m_frames := []\<rparr>]\<rparr>))"

subsection \<open>Loss detection\<close>

text \<open>
  \<open>detectLostPackets\<close> computes the loss delay in single-precision floating point:
  \<open>float(max(latestRTT, smoothedRTT)) * timeThreshold\<close> with \<open>timeThreshold = 9.0 / 8\<close>
  (1.125, exact in binary), replaced by 1.0 when it is not greater, and rounded up by
  \<open>std::ceil\<close>. A positive \<open>float\<close> has a significand of 24 bits; the conversion of an
  integer and the product are rounded to the nearest such value, ties to the even
  significand. \<open>f32_round n\<close> is that rounding for a numerator \<open>n\<close> over a fixed power of
  two (the sizes that occur are far from the exponent limits of the format).
\<close>

fun bitlen :: "nat \<Rightarrow> nat" where
  "bitlen n = (if n = 0 then 0 else Suc (bitlen (n div 2)))"

declare bitlen.simps [simp del]

definition f32_round :: "nat \<Rightarrow> nat" where
  "f32_round n =
     (let b = bitlen n in
      if b \<le> 24 then n
      else
        let sh = b - 24; q = n div 2 ^ sh; r = n mod 2 ^ sh; half = 2 ^ (sh - 1) in
        (if r > half \<or> (r = half \<and> odd q) then q + 1 else q) * 2 ^ sh)"

text \<open>
  The value \<open>(uint64_t)std::ceil(loss_delay)\<close> for the larger of the two round-trip times.
  The product is kept as a numerator over 8. (A result of \<open>2 ^ 64\<close> or more, for which the
  conversion is undefined in C++, is reduced modulo \<open>2 ^ 64\<close>.)
\<close>

definition loss_delay_ceil :: "nat \<Rightarrow> nat" where
  "loss_delay_ceil max_rtt =
     (let product8 = f32_round (9 * f32_round max_rtt);
          loss_delay8 = (if product8 > 8 then product8 else 8)
      in ((loss_delay8 + 7) div 8) mod 2 ^ 64)"

text \<open>
  The state of the loop of \<open>detectLostPackets\<close> is the handler and the vector
  \<open>lost_packets\<close>. One call of the callback of \<open>Iterate\<close> is \<open>detectLost_step\<close>: it returns
  \<open>None\<close> when an assertion fails, and otherwise the new state with the callback's return
  value (false stops the iteration).
\<close>

definition detectLost_step ::
  "nat \<Rightarrow> nat \<Rightarrow> nat \<Rightarrow> nat \<Rightarrow> 'r SentPacketHandler \<times> nat list
     \<Rightarrow> (('r SentPacketHandler \<times> nat list) \<times> bool) option" where
  "detectLost_step lost_send_time delay priori_inflight ref st =
     (case st of (s, lost_packets) \<Rightarrow>
      let packet = packets s ! ref in
      if m_pn packet > m_largest_acked s then Some ((s, lost_packets), False)
      else if m_declared_lost packet \<or> m_skipped packet then Some ((s, lost_packets), True)
      else if m_send_time packet < lost_send_time
              \<or> m_largest_acked s \<ge> u64_add (m_pn packet) packetThreshold
      then
        (let lost_packets' = (if m_is_bbr s then lost_packets @ [ref] else lost_packets);
             s1 = s\<lparr>packets := (packets s)[ref := packet\<lparr>m_declared_lost := True\<rparr>]\<rparr>
         in case removeFromBytesInflight s1 ref of
              None \<Rightarrow> None
            | Some s2 \<Rightarrow>
                (case queueFramesForRetransmission s2 ref of
                   None \<Rightarrow> None
                 | Some s3 \<Rightarrow>
                     Some ((if \<not> m_is_bbr s3
                            then s3\<lparr>events := events s3 @
                                     [OnPacketLost (m_pn packet) (m_length packet) priori_inflight]\<rparr>
                            else s3, lost_packets'), True)))
      else if m_loss_time s = 0
      then Some ((s\<lparr>m_loss_time := u64_add (m_send_time packet) delay\<rparr>, lost_packets), True)
      else Some ((s, lost_packets), True))"

fun detectLost_loop ::
  "nat \<Rightarrow> nat \<Rightarrow> nat \<Rightarrow> (nat \<times> nat) list \<Rightarrow> 'r SentPacketHandler \<times> nat list
     \<Rightarrow> ('r SentPacketHandler \<times> nat list) option" where
  "detectLost_loop lost_send_time delay priori_inflight [] st = Some st"
| "detectLost_loop lost_send_time delay priori_inflight ((n, ref) # nodes) st =
     (case detectLost_step lost_send_time delay priori_inflight ref st of
        None \<Rightarrow> None
      | Some (st', continue) \<Rightarrow>
          if continue then detectLost_loop lost_send_time delay priori_inflight nodes st'
          else Some st')"

text \<open>
  \<open>detectLostPackets(now, lost_packets)\<close>, called with an empty vector. The function
  always returns true; the model returns the new handler and the vector.
\<close>

definition detectLostPackets ::
  "'r RTTOps \<Rightarrow> 'r SentPacketHandler \<Rightarrow> nat \<Rightarrow> ('r SentPacketHandler \<times> nat list) option" where
  "detectLostPackets ops s now =
     (let s0 = s\<lparr>m_loss_time := 0\<rparr>;
          max_rtt = max (latestRTT ops (m_rtt_stats s0)) (smoothedRTT ops (m_rtt_stats s0));
          delay = loss_delay_ceil max_rtt;
          lost_send_time = u64_sub now delay;
          priori_inflight = m_bytes_inflight s0
      in detectLost_loop lost_send_time delay priori_inflight
           (m_packet_list (m_history s0)) (s0, []))"

subsection \<open>Processing an ACK frame\<close>

text \<open>
  In \<open>detectAndRemoveAckedPackets\<close> the index \<open>ack_range_idx\<close> counts from the back of
  the vector of ranges: \<open>ack_ranges[size - 1 - ack_range_idx]\<close>. The model keeps the part
  of the reversed vector that starts at that index; the inner \<open>while\<close> loop moves to the
  next range as long as the current one ends below \<open>pn\<close> and is not the last.
\<close>

fun advance_ack_range :: "nat \<Rightarrow> AckRange list \<Rightarrow> AckRange list" where
  "advance_ack_range pn (r # r' # rs) =
     (if m_largest r < pn then advance_ack_range pn (r' # rs) else r # r' # rs)"
| "advance_ack_range pn rs = rs"

text \<open>
  The first \<open>Iterate\<close> of \<open>detectAndRemoveAckedPackets\<close>: the references pushed to
  \<open>m_acked_packets\<close>. \<open>missing\<close> is \<open>frame->hasMissingRanges()\<close>.
\<close>

fun collect_acked ::
  "QuicPacket list \<Rightarrow> nat \<Rightarrow> nat \<Rightarrow> bool \<Rightarrow> AckRange list \<Rightarrow> (nat \<times> nat) list \<Rightarrow> nat list" where
  "collect_acked heap lowest_acked largest_acked missing rs [] = []"
| "collect_acked heap lowest_acked largest_acked missing rs ((n, ref) # nodes) =
     (let pn = m_pn (heap ! ref) in
      if pn < lowest_acked then collect_acked heap lowest_acked largest_acked missing rs nodes
      else if pn > largest_acked then []
      else if missing then
        (let rs' = advance_ack_range pn rs; ack_range = hd rs' in
         if pn < m_smallest ack_range
         then collect_acked heap lowest_acked largest_acked missing rs' nodes
         else if pn > m_largest ack_range then []
         else if m_skipped (heap ! ref) then []
         else ref # collect_acked heap lowest_acked largest_acked missing rs' nodes)
      else if m_skipped (heap ! ref) then []
      else ref # collect_acked heap lowest_acked largest_acked missing rs nodes)"

text \<open>
  The second loop: for each acked packet, raise \<open>m_lowest_not_confirmed_acked\<close>, call
  \<open>onAcked\<close> of its frames and remove it from the history; when \<open>remove\<close> fails the
  function returns at once (the boolean is false).
\<close>

fun process_acked :: "'r SentPacketHandler \<Rightarrow> nat list \<Rightarrow> 'r SentPacketHandler \<times> bool" where
  "process_acked s [] = (s, True)"
| "process_acked s (ref # refs) =
     (let packet = packets s ! ref;
          s1 = (if m_pkt_largest_acked packet \<noteq> 2 ^ 64 - 1
                then s\<lparr>m_lowest_not_confirmed_acked :=
                        max (m_lowest_not_confirmed_acked s) (u64_add (m_pkt_largest_acked packet) 1)\<rparr>
                else s);
          s2 = s1\<lparr>events := events s1 @ map FrameOnAcked (m_frames packet)\<rparr>
      in case history_remove (m_history s2) (m_pn packet) of
           (h, ok) \<Rightarrow>
             if \<not> ok then (s2\<lparr>m_history := h\<rparr>, False)
             else process_acked (s2\<lparr>m_history := h\<rparr>) refs)"

definition detectAndRemoveAckedPackets ::
  "'r SentPacketHandler \<Rightarrow> QuicAckFrame \<Rightarrow> 'r SentPacketHandler \<times> nat list" where
  "detectAndRemoveAckedPackets s frame =
     (let acked = collect_acked (packets s) (lowestAcked frame) (largestAcked frame)
                    (hasMissingRanges frame) (rev (m_ack_ranges frame))
                    (m_packet_list (m_history s));
          s1 = s\<lparr>m_acked_packets := acked\<rparr>
      in case process_acked s1 acked of
           (s2, ok) \<Rightarrow> (s2, if ok then acked else []))"

text \<open>
  The loop of \<open>receivedAck\<close> over the acked packets: collect them for the congestion event
  (BBR) or report each to the congestion controller, and take them out of bytes-in-flight.
\<close>

fun account_acked ::
  "nat \<Rightarrow> nat \<Rightarrow> nat list \<Rightarrow> 'r SentPacketHandler \<times> nat list
     \<Rightarrow> ('r SentPacketHandler \<times> nat list) option" where
  "account_acked prior_inflight recv_time [] st = Some st"
| "account_acked prior_inflight recv_time (ref # refs) (s, acked_packets_for_event) =
     (let packet = packets s ! ref;
          counts = (m_included_in_bytes_inflight packet \<and> \<not> m_declared_lost packet);
          for_event = (if counts \<and> m_is_bbr s then acked_packets_for_event @ [ref]
                       else acked_packets_for_event);
          s1 = (if counts \<and> \<not> m_is_bbr s
                then s\<lparr>events := events s @
                        [OnPacketAcked (m_pn packet) (m_length packet) prior_inflight recv_time]\<rparr>
                else s)
      in case removeFromBytesInflight s1 ref of
           None \<Rightarrow> None
         | Some s2 \<Rightarrow> account_acked prior_inflight recv_time refs (s2, for_event))"

text \<open>
  \<open>receivedAck\<close>. The boolean returned is \<open>acked_1RTT_packet\<close>, which the source never
  sets, or the \<open>false\<close> of one of the early returns.
\<close>

definition receivedAck ::
  "'r RTTOps \<Rightarrow> 'r SentPacketHandler \<Rightarrow> QuicAckFrame \<Rightarrow> nat \<Rightarrow> ('r SentPacketHandler \<times> bool) option" where
  "receivedAck ops s frame recv_time =
     (let largest_acked = largestAcked frame in
      if largest_acked > m_largest_sent s then Some (s, False)
      else
        let s1 = s\<lparr>m_largest_acked := max (m_largest_acked s) largest_acked\<rparr>;
            prior_inflight = m_bytes_inflight s1
        in case detectAndRemoveAckedPackets s1 frame of
             (s2, acked_packets) \<Rightarrow>
               if length acked_packets = 0 then Some (s2, False)
               else
                 let packet = packets s2 ! last acked_packets;
                     s3 = (if m_pn packet = largestAcked frame
                           then s2\<lparr>m_rtt_stats :=
                                     updateRTT ops (m_rtt_stats s2)
                                       (u64_sub recv_time (m_send_time packet))
                                       (min (m_ack_delay frame) (maxAckDelay ops (m_rtt_stats s2)))
                                       recv_time,
                                   events := events s2 @ [MaybeExitSlowStart]\<rparr>
                           else s2)
                 in case detectLostPackets ops s3 recv_time of
                      None \<Rightarrow> None
                    | Some (s4, lost_packets) \<Rightarrow>
                        (case account_acked prior_inflight recv_time acked_packets (s4, []) of
                           None \<Rightarrow> None
                         | Some (s5, acked_packets_for_event) \<Rightarrow>
                             let s6 = (if m_is_bbr s5
                                       then s5\<lparr>events := events s5 @
                                               [OnCongEvent True prior_inflight (m_bytes_inflight s5)
                                                  recv_time acked_packets_for_event lost_packets 0]\<rparr>
                                       else s5);
                                 s7 = s6\<lparr>m_PTO_count := 0, m_num_probes_to_send := 0\<rparr>;
                                 s8 = s7\<lparr>m_history := deleteOldPackets ops (m_rtt_stats s7)
                                                        (packets s7) (m_history s7) recv_time\<rparr>
                             in Some (setLossDetectionTimer ops s8, False)))"

subsection \<open>Concrete inputs and specification vocabulary for the sent-packet handler\<close>

text \<open>An RTT estimator whose latest and smoothed RTT are both 8 microseconds and which ignores
  updates; the probe timeout is 1000 and the maximal ACK delay 25000.\<close>

definition const_rtt_ops :: "unit RTTOps" where
  "const_rtt_ops = \<lparr>latestRTT = (\<lambda>_. 8), smoothedRTT = (\<lambda>_. 8), maxAckDelay = (\<lambda>_. 25000),
     PTO = (\<lambda>_. 1000), updateRTT = (\<lambda>r _ _ _. r)\<rparr>"

text \<open>An RTT estimator whose latest and smoothed RTT are both 8000 microseconds (8 ms).\<close>

definition slow_rtt_ops :: "unit RTTOps" where
  "slow_rtt_ops = \<lparr>latestRTT = (\<lambda>_. 8000), smoothedRTT = (\<lambda>_. 8000), maxAckDelay = (\<lambda>_. 25000),
     PTO = (\<lambda>_. 1000), updateRTT = (\<lambda>r _ _ _. r)\<rparr>"

text \<open>The larger of the latest and the smoothed RTT of a handler.\<close>

definition handler_max_rtt :: "'r RTTOps \<Rightarrow> 'r SentPacketHandler \<Rightarrow> nat" where
  "handler_max_rtt ops s = max (latestRTT ops (m_rtt_stats s)) (smoothedRTT ops (m_rtt_stats s))"

text \<open>Two ack-eliciting packets, numbers 1 and 2, of 50 and 70 bytes, each carrying one frame.\<close>

definition packet_1 :: QuicPacket where
  "packet_1 = \<lparr>m_pn = 1, m_send_time = 100, m_length = 50, m_frames = [10],
     m_pkt_largest_acked = 2 ^ 64 - 1, m_declared_lost = False, m_skipped = False,
     m_included_in_bytes_inflight = False\<rparr>"

definition packet_2 :: QuicPacket where
  "packet_2 = \<lparr>m_pn = 2, m_send_time = 200, m_length = 70, m_frames = [20],
     m_pkt_largest_acked = 2 ^ 64 - 1, m_declared_lost = False, m_skipped = False,
     m_included_in_bytes_inflight = False\<rparr>"

text \<open>An ACK frame acknowledging the packet numbers 1 and 2.\<close>

definition ack_1_2 :: QuicAckFrame where
  "ack_1_2 = \<lparr>m_ack_ranges = [AckRange 1 2], m_ack_delay = 0, m_has_ecn = False,
     m_ecn_section = None, m_ack_size = 0, m_ack_valid = False\<rparr>"

text \<open>The packet numbers of the history's list, front to back.\<close>

definition history_pns :: "'r SentPacketHandler \<Rightarrow> nat list" where
  "history_pns s = map (\<lambda>(n, r). m_pn (packets s ! r)) (m_packet_list (m_history s))"

text \<open>The sum of the lengths of the history's entries that are marked as included in the bytes
  in flight: the right-hand side of the accounting invariant.\<close>

definition history_inflight_sum :: "'r SentPacketHandler \<Rightarrow> nat" where
  "history_inflight_sum s =
     sum_list (map (\<lambda>(n, r). m_length (packets s ! r))
       (filter (\<lambda>(n, r). m_included_in_bytes_inflight (packets s ! r)) (m_packet_list (m_history s))))"

text \<open>Send packet 1 at time 100 and packet 2 at time 200 through \<open>sentPacket\<close>, then process
  \<open>ack_1_2\<close> at time 300.\<close>

definition sent_two_acked :: "(unit SentPacketHandler \<times> bool) option" where
  "sent_two_acked =
     (case sentPacket const_rtt_ops (new_SentPacketHandler () [packet_1, packet_2]) 0 100 of
        None \<Rightarrow> None
      | Some s1 \<Rightarrow>
          (case sentPacket const_rtt_ops s1 1 200 of
             None \<Rightarrow> None
           | Some s2 \<Rightarrow> receivedAck const_rtt_ops s2 ack_1_2 300))"

text \<open>An ACK frame matches a packet number when one of its ranges contains it.\<close>

definition ack_matches :: "QuicAckFrame \<Rightarrow> nat \<Rightarrow> bool" where
  "ack_matches frame pn \<longleftrightarrow>
     (\<exists>r \<in> set (m_ack_ranges frame). m_smallest r \<le> pn \<and> pn \<le> m_largest r)"

text \<open>The bytes accounted for by the packet objects themselves (each object once).\<close>

definition accounted_inflight :: "QuicPacket list \<Rightarrow> nat" where
  "accounted_inflight heap =
     sum_list (map (\<lambda>p. if m_included_in_bytes_inflight p then m_length p else 0) heap)"

text \<open>The two loss criteria of \<open>detectLostPackets\<close>: sent before the time threshold, or at least
  \<open>packetThreshold\<close> packet numbers below the largest acknowledged one.\<close>

definition loss_condition :: "nat \<Rightarrow> nat \<Rightarrow> QuicPacket \<Rightarrow> bool" where
  "loss_condition lost_send_time largest_acked p \<longleftrightarrow>
     m_send_time p < lost_send_time \<or> largest_acked \<ge> u64_add (m_pn p) packetThreshold"

text \<open>The packets the iteration visits: it stops at the first entry above \<open>largest_acked\<close>.\<close>

definition loss_visited :: "QuicPacket list \<Rightarrow> nat \<Rightarrow> (nat \<times> nat) list \<Rightarrow> nat list" where
  "loss_visited heap largest_acked nodes =
     map snd (takeWhile (\<lambda>(n, r). m_pn (heap ! r) \<le> largest_acked) nodes)"

text \<open>What \<open>detectLostPackets\<close> does to a lost packet: it is flagged, taken out of the bytes in
  flight, and its frames are handed over for retransmission.\<close>

definition mark_lost :: "QuicPacket \<Rightarrow> QuicPacket" where
  "mark_lost p = p\<lparr>m_declared_lost := True, m_included_in_bytes_inflight := False, m_frames := []\<rparr>"

text \<open>The visited packets that meet a loss criterion, and those that do not (in list order).\<close>

definition lost_refs :: "nat \<Rightarrow> QuicPacket list \<Rightarrow> nat \<Rightarrow> (nat \<times> nat) list \<Rightarrow> nat set" where
  "lost_refs lst heap la nodes =
     {r \<in> set (loss_visited heap la nodes).
        \<not> m_declared_lost (heap ! r) \<and> \<not> m_skipped (heap ! r) \<and> loss_condition lst la (heap ! r)}"

definition pending_refs :: "nat \<Rightarrow> QuicPacket list \<Rightarrow> nat \<Rightarrow> (nat \<times> nat) list \<Rightarrow> nat list" where
  "pending_refs lst heap la nodes =
     filter (\<lambda>r. \<not> m_declared_lost (heap ! r) \<and> \<not> m_skipped (heap ! r)
                  \<and> \<not> loss_condition lst la (heap ! r))
       (loss_visited heap la nodes)"

text \<open>The first occurrences of the elements of a list, in order.\<close>

primrec firsts :: "'a list \<Rightarrow> 'a list" where
  "firsts [] = []"
| "firsts (x # xs) = x # removeAll x (firsts xs)"

text \<open>The packets declared lost, in the order in which the iteration meets them (a packet that
  the list holds twice is lost at its first entry).\<close>

definition lost_sequence :: "nat \<Rightarrow> QuicPacket list \<Rightarrow> nat \<Rightarrow> (nat \<times> nat) list \<Rightarrow> nat list" where
  "lost_sequence lst heap la nodes =
     firsts (filter (\<lambda>r. \<not> m_declared_lost (heap ! r) \<and> \<not> m_skipped (heap ! r)
                          \<and> loss_condition lst la (heap ! r))
               (loss_visited heap la nodes))"

text \<open>What the collaborators see of a lost packet: \<open>onLost\<close> of each of its frames, which queues
  the frame for retransmission, and then, unless the congestion controller is BBR,
  \<open>onPacketLost\<close> with the bytes in flight before the iteration.\<close>

definition loss_events :: "bool \<Rightarrow> nat \<Rightarrow> QuicPacket \<Rightarrow> event list" where
  "loss_events is_bbr priori_inflight p =
     map FrameOnLost (m_frames p)
     @ (if is_bbr then [] else [OnPacketLost (m_pn p) (m_length p) priori_inflight])"

text \<open>The loss time armed by the iteration: the send time of the first pending packet plus the
  loss delay, 0 when there is none.\<close>

definition expected_loss_time :: "nat \<Rightarrow> nat \<Rightarrow> QuicPacket list \<Rightarrow> nat \<Rightarrow> (nat \<times> nat) list \<Rightarrow> nat" where
  "expected_loss_time lst d heap la nodes =
     (case pending_refs lst heap la nodes of
        [] \<Rightarrow> 0
      | r # _ \<Rightarrow> u64_add (m_send_time (heap ! r)) d)"

text \<open>The relation between the handler before and after the loop of \<open>detectLostPackets\<close>.\<close>

definition loss_post ::
  "nat \<Rightarrow> nat \<Rightarrow> nat \<Rightarrow> (nat \<times> nat) list \<Rightarrow> 'r SentPacketHandler \<Rightarrow> nat list
     \<Rightarrow> 'r SentPacketHandler \<Rightarrow> nat list \<Rightarrow> bool" where
  "loss_post lst d priori_inflight nodes s acc s' acc' \<longleftrightarrow>
     m_bytes_inflight s' = accounted_inflight (packets s')
     \<and> m_largest_acked s' = m_largest_acked s \<and> m_is_bbr s' = m_is_bbr s
     \<and> m_history s' = m_history s
     \<and> length (packets s') = length (packets s)
     \<and> (\<forall>r < length (packets s).
           packets s' ! r =
             (if r \<in> lost_refs lst (packets s) (m_largest_acked s) nodes
              then mark_lost (packets s ! r) else packets s ! r))
     \<and> m_loss_time s' =
           (if m_loss_time s \<noteq> 0 then m_loss_time s
            else expected_loss_time lst d (packets s) (m_largest_acked s) nodes)
     \<and> acc' = acc @ (if m_is_bbr s then lost_sequence lst (packets s) (m_largest_acked s) nodes
                      else [])
     \<and> events s' = events s @
           concat (map (\<lambda>r. loss_events (m_is_bbr s) priori_inflight (packets s ! r))
                     (lost_sequence lst (packets s) (m_largest_acked s) nodes))"

text \<open>A handler that tracks one in-flight packet, number 1, sent at time 1000, with
  \<open>largest_acked = 1\<close>.\<close>

definition tracked_one :: "unit SentPacketHandler" where
  "tracked_one = (new_SentPacketHandler () [packet_1\<lparr>m_send_time := 1000, m_included_in_bytes_inflight := True\<rparr>])
     \<lparr>m_history := \<lparr>m_packet_list = [(0, 0)], m_packet_map = [1 \<mapsto> 0], m_highest_sent = 1,
                     next_node = 1\<rparr>,
      m_last_ack_eliciting_packet_time := 1000, m_largest_acked := 1, m_largest_sent := 1,
      m_bytes_inflight := 50\<rparr>"

text \<open>An ACK frame acknowledging packet number 0 only.\<close>

definition ack_0 :: QuicAckFrame where
  "ack_0 = \<lparr>m_ack_ranges = [AckRange 0 0], m_ack_delay = 0, m_has_ecn = False,
     m_ecn_section = None, m_ack_size = 0, m_ack_valid = False\<rparr>"

section \<open>Session: frame handling and packet composition (quic\_session.cc)\<close>

text \<open>Modelled from the spec: the frame kinds of \<open>QuicFrameType\<close> (quic\_type.h is not part of
  the sources); the names are those the sources use.\<close>

datatype QuicFrameType =
    PADDING | PING | ACK | ACK_WITH_ECN | RESET_STREAM | STOP_SENDING | CRYPTO | NEW_TOKEN
  | STREAM | MAX_DATA | MAX_STREAM_DATA | MAX_STREAMS | DATA_BLOCKED | STREAM_DATA_BLOCKED
  | STREAM_BLOCKED | NEW_CONNECTION_ID | RETIRE_CONNECTION_ID | PATH_CHALLENGE | PATH_RESPONSE
  | CONNECTION_CLOSE | HANDSHAKE_DONE | UNKNOWN

text \<open>What the session reads of a frame object: its kind (\<open>type()\<close>, fixed by the object's
  class, so that the session's pointer casts succeed), \<open>stream_id()\<close>, \<open>size()\<close>,
  \<open>maximum_stream_data()\<close> and \<open>isAppErr()\<close>; \<open>frame_tag\<close> tells frame objects apart.\<close>

record QuicFrame =
  frame_type :: QuicFrameType
  frame_stream_id :: nat
  frame_size :: nat
  maximum_stream_data :: nat
  isAppErr :: bool
  frame_tag :: nat

text \<open>The objects the session delegates to (stream manager and streams, flow controller,
  sent- and received-packet handlers) are a state \<open>'c\<close> with one operation per call the
  session makes. An operation gives \<open>None\<close> when an assertion inside it fails. What an
  operation does to the session through the \<open>StreamSender\<close> interface or a frame's callback
  is part of its result, and the session functions below apply it:
  \<^item> a lookup of the stream manager returns whether a stream was found;
  \<^item> \<open>QuicSndStream::updateSendWin\<close> returns whether it called \<open>onHasStreamData\<close>;
  \<^item> \<open>QuicSndStream::popStreamFrame\<close> returns the frame (if any), whether the stream has more
    data, and the control frames it queued on the session (\<open>queueControlFrame\<close> with a
    STREAM\_DATA\_BLOCKED frame when it is newly blocked);
  \<^item> \<open>SentPacketHandler::receivedAck\<close> returns the calls that the \<open>onLost\<close> callbacks of the
    frames made: \<open>onHasStreamData\<close> (a stream queues a retransmission) and
    \<open>RetransmissionQueue::addAppData\<close> (the callback that \<open>sendPacket\<close> gives to the other
    frames).
  \<open>onStreamCompleted\<close> only goes back to the stream manager and stays inside \<open>'c\<close>.\<close>

datatype session_callback = CallOnHasStreamData nat | CallAddAppData QuicFrame

record 'c Collaborators =
  streams_getOrOpenReceiveStream :: "nat \<Rightarrow> 'c \<Rightarrow> (bool \<times> 'c) option"
  streams_getOrOpenSendStream :: "nat \<Rightarrow> 'c \<Rightarrow> (bool \<times> 'c) option"
  stream_handleStreamFrame :: "QuicFrame \<Rightarrow> 'c \<Rightarrow> (int \<times> 'c) option"
  stream_updateSendWin :: "nat \<Rightarrow> nat \<Rightarrow> 'c \<Rightarrow> bool \<times> 'c"
  stream_popStreamFrame ::
    "nat \<Rightarrow> nat \<Rightarrow> 'c \<Rightarrow> ((QuicFrame option \<times> bool) \<times> QuicFrame list \<times> 'c) option"
  conn_updateSendWin :: "nat \<Rightarrow> 'c \<Rightarrow> 'c"
  handler_receivedAck :: "QuicFrame \<Rightarrow> nat \<Rightarrow> 'c \<Rightarrow> (session_callback list \<times> 'c) option"
  handler_getAckFrame :: "bool \<Rightarrow> 'c \<Rightarrow> QuicFrame option \<times> 'c"

record 'c QuicSession =
  m_is_alive :: bool
  m_control_frames :: "QuicFrame list"
  m_retrans_queue :: "QuicFrame list"
  m_stream_queue :: "nat list"
  m_active_streams :: "nat set"
  write_signals :: nat
  read_signals :: nat
  collab :: 'c

definition new_QuicSession :: "'c \<Rightarrow> 'c QuicSession" where
  "new_QuicSession c =
     \<lparr>m_is_alive = True, m_control_frames = [], m_retrans_queue = [], m_stream_queue = [],
      m_active_streams = {}, write_signals = 0, read_signals = 0, collab = c\<rparr>"

definition closeSession :: "'c QuicSession \<Rightarrow> 'c QuicSession" where
  "closeSession s =
     s\<lparr>m_is_alive := False, write_signals := write_signals s + 1, read_signals := read_signals s + 1\<rparr>"

definition closeRemote :: "'c QuicSession \<Rightarrow> 'c QuicSession" where
  "closeRemote s = closeSession s"

definition queueControlFrame :: "'c QuicSession \<Rightarrow> QuicFrame \<Rightarrow> 'c QuicSession" where
  "queueControlFrame s frame =
     s\<lparr>m_control_frames := m_control_frames s @ [frame], write_signals := write_signals s + 1\<rparr>"

definition addActiveStream :: "'c QuicSession \<Rightarrow> nat \<Rightarrow> 'c QuicSession" where
  "addActiveStream s sid =
     (if sid \<notin> m_active_streams s
      then s\<lparr>m_stream_queue := m_stream_queue s @ [sid],
             m_active_streams := insert sid (m_active_streams s)\<rparr>
      else s)"

definition onHasStreamData :: "'c QuicSession \<Rightarrow> nat \<Rightarrow> 'c QuicSession" where
  "onHasStreamData s stream_id =
     (let s1 = addActiveStream s stream_id in s1\<lparr>write_signals := write_signals s1 + 1\<rparr>)"

text \<open>\<open>RetransmissionQueue::addAppData\<close> on the session's queue.\<close>

definition addAppData :: "'c QuicSession \<Rightarrow> QuicFrame \<Rightarrow> 'c QuicSession" where
  "addAppData s frame = s\<lparr>m_retrans_queue := m_retrans_queue s @ [frame]\<rparr>"

fun apply_callback :: "'c QuicSession \<Rightarrow> session_callback \<Rightarrow> 'c QuicSession" where
  "apply_callback s (CallOnHasStreamData stream_id) = onHasStreamData s stream_id"
| "apply_callback s (CallAddAppData frame) = addAppData s frame"

text \<open>The cases that only look a receive stream up: -1 when there is none.\<close>

definition lookup_receive_stream ::
  "'c Collaborators \<Rightarrow> 'c QuicSession \<Rightarrow> QuicFrame \<Rightarrow> (int \<times> 'c QuicSession) option" where
  "lookup_receive_stream ops s frame =
     (case streams_getOrOpenReceiveStream ops (frame_stream_id frame) (collab s) of
        None \<Rightarrow> None
      | Some (found, c1) \<Rightarrow> Some (if found then 0 else - 1, s\<lparr>collab := c1\<rparr>))"

text \<open>\<open>handleFrame\<close> returns 0 or -1 and the session; \<open>None\<close> is a failed assertion (of a
  collaborator, or the one on a stream that rejects the frame). The CONNECTION\_CLOSE case
  has its two calls of \<open>closeRemote\<close> commented out and does nothing.\<close>

definition handleFrame ::
  "'c Collaborators \<Rightarrow> 'c QuicSession \<Rightarrow> QuicFrame \<Rightarrow> nat \<Rightarrow> (int \<times> 'c QuicSession) option" where
  "handleFrame ops s frame now =
     (case frame_type frame of
        STREAM \<Rightarrow>
          (case streams_getOrOpenReceiveStream ops (frame_stream_id frame) (collab s) of
             None \<Rightarrow> None
           | Some (found, c1) \<Rightarrow>
               if \<not> found then Some (- 1, s\<lparr>collab := c1\<rparr>)
               else (case stream_handleStreamFrame ops frame c1 of
                       None \<Rightarrow> None
                     | Some (code, c2) \<Rightarrow>
                         if code \<noteq> 0 then None else Some (0, s\<lparr>collab := c2\<rparr>)))
      | ACK \<Rightarrow>
          (case handler_receivedAck ops frame now (collab s) of
             None \<Rightarrow> None
           | Some (calls, c1) \<Rightarrow> Some (0, foldl apply_callback (s\<lparr>collab := c1\<rparr>) calls))
      | CONNECTION_CLOSE \<Rightarrow> Some (0, s)
      | MAX_DATA \<Rightarrow>
          Some (0, s\<lparr>collab := conn_updateSendWin ops (maximum_stream_data frame) (collab s)\<rparr>)
      | MAX_STREAM_DATA \<Rightarrow>
          (case streams_getOrOpenSendStream ops (frame_stream_id frame) (collab s) of
             None \<Rightarrow> None
           | Some (found, c1) \<Rightarrow>
               if \<not> found then Some (- 1, s\<lparr>collab := c1\<rparr>)
               else (let (has_stream_data, c2) =
                           stream_updateSendWin ops (frame_stream_id frame)
                             (maximum_stream_data frame) c1;
                         s2 = s\<lparr>collab := c2\<rparr>
                     in Some (0, if has_stream_data then onHasStreamData s2 (frame_stream_id frame)
                                 else s2)))
      | DATA_BLOCKED \<Rightarrow> lookup_receive_stream ops s frame
      | STREAM_DATA_BLOCKED \<Rightarrow> lookup_receive_stream ops s frame
      | STREAM_BLOCKED \<Rightarrow> lookup_receive_stream ops s frame
      | STOP_SENDING \<Rightarrow> lookup_receive_stream ops s frame
      | RESET_STREAM \<Rightarrow> lookup_receive_stream ops s frame
      | _ \<Rightarrow> Some (0, s))"

subsection \<open>Composing a packet\<close>

record QuicPacketPayload =
  payload_frames :: "QuicFrame list"
  payload_ack :: "QuicFrame option"
  payload_length :: nat

text \<open>\<open>RetransmissionQueue::getAppDataFrame\<close>: the front frame, when it fits.\<close>

definition getAppDataFrame :: "QuicFrame list \<Rightarrow> nat \<Rightarrow> QuicFrame option \<times> QuicFrame list" where
  "getAppDataFrame app_data max_len =
     (case app_data of
        [] \<Rightarrow> (None, [])
      | f # rest \<Rightarrow> if frame_size f > max_len then (None, f # rest) else (Some f, rest))"

text \<open>The retransmission loop of \<open>composeNextPacket\<close>, by recursion on the queue: it stops
  when fewer than 128 bytes remain or \<open>getAppDataFrame\<close> returns nothing.\<close>

fun retransmission_loop ::
  "nat \<Rightarrow> QuicFrame list \<Rightarrow> QuicPacketPayload \<Rightarrow> QuicPacketPayload \<times> QuicFrame list" where
  "retransmission_loop max_payload_size [] payload = (payload, [])"
| "retransmission_loop max_payload_size (f # rest) payload =
     (let remain_len = u64_sub max_payload_size (payload_length payload)
      in if remain_len < 128 then (payload, f # rest)
         else (case getAppDataFrame (f # rest) remain_len of
                 (None, q) \<Rightarrow> (payload, q)
               | (Some frame, q) \<Rightarrow>
                   retransmission_loop max_payload_size rest
                     (payload\<lparr>payload_frames := payload_frames payload @ [frame],
                              payload_length := u64_add (payload_length payload) (frame_size frame)\<rparr>)))"

text \<open>\<open>appendControlFrames\<close> walks \<open>m_control_frames\<close> from \<open>rbegin()\<close> and erases each frame
  it takes; the loop below runs on the reversed list (last queued frame first).\<close>

fun appendControlFrames_loop ::
  "nat \<Rightarrow> QuicFrame list \<Rightarrow> QuicFrame list \<Rightarrow> nat \<Rightarrow> QuicFrame list \<times> QuicFrame list \<times> nat" where
  "appendControlFrames_loop max_packet_size [] frames payload_len = ([], frames, payload_len)"
| "appendControlFrames_loop max_packet_size (frame # rest) frames payload_len =
     (if u64_add payload_len (frame_size frame) > max_packet_size
      then (frame # rest, frames, payload_len)
      else appendControlFrames_loop max_packet_size rest (frames @ [frame])
             (u64_add payload_len (frame_size frame)))"

definition appendControlFrames ::
  "'c QuicSession \<Rightarrow> QuicFrame list \<Rightarrow> nat \<Rightarrow> 'c QuicSession \<times> QuicFrame list \<times> nat" where
  "appendControlFrames s frames max_packet_size =
     (if m_control_frames s = [] then (s, frames, 0)
      else (let (rest, frames', payload_len) =
                  appendControlFrames_loop max_packet_size (rev (m_control_frames s)) frames 0
            in (s\<lparr>m_control_frames := rev rest\<rparr>, frames', payload_len)))"

text \<open>A value stored in an \<open>int\<close> (32 bits, two's complement).\<close>

definition to_int32 :: "int \<Rightarrow> int" where
  "to_int32 i = (i + 2 ^ 31) mod 2 ^ 32 - 2 ^ 31"

text \<open>The loop of \<open>popStreamFrames\<close> over the swapped-out queue. \<open>remain_size\<close> is reduced
  by the whole \<open>payload_len\<close> after each frame, as in the source. The control frames that a
  stream queues while it is asked for a frame go to the end of \<open>m_control_frames\<close>.\<close>

fun popStreamFrames_loop ::
  "'c Collaborators \<Rightarrow> nat list \<Rightarrow> 'c QuicSession \<Rightarrow> QuicFrame list \<Rightarrow> int \<Rightarrow> int
     \<Rightarrow> ('c QuicSession \<times> QuicFrame list \<times> int) option" where
  "popStreamFrames_loop ops [] s frames payload_len remain_size = Some (s, frames, payload_len)"
| "popStreamFrames_loop ops (sid # stream_queue) s frames payload_len remain_size =
     (if remain_size \<le> 0 then Some (s, frames, payload_len)
      else (case streams_getOrOpenSendStream ops sid (collab s) of
              None \<Rightarrow> None
            | Some (found, c1) \<Rightarrow>
                if \<not> found
                then popStreamFrames_loop ops stream_queue
                       (s\<lparr>m_active_streams := m_active_streams s - {sid}, collab := c1\<rparr>)
                       frames payload_len remain_size
                else (case stream_popStreamFrame ops sid (nat remain_size) c1 of
                        None \<Rightarrow> None
                      | Some ((frame, has_more_data), queued, c2) \<Rightarrow>
                          (let s1 = foldl queueControlFrame (s\<lparr>collab := c2\<rparr>) queued;
                               s2 = (if has_more_data
                                     then s1\<lparr>m_stream_queue := m_stream_queue s1 @ [sid]\<rparr>
                                     else s1\<lparr>m_active_streams := m_active_streams s1 - {sid}\<rparr>)
                           in (case frame of
                                 None \<Rightarrow> popStreamFrames_loop ops stream_queue s2 frames payload_len
                                          remain_size
                               | Some f \<Rightarrow>
                                   (let payload_len' = to_int32 (payload_len + int (frame_size f))
                                    in popStreamFrames_loop ops stream_queue s2 (frames @ [f])
                                         payload_len' (to_int32 (remain_size - payload_len'))))))))"

definition popStreamFrames ::
  "'c Collaborators \<Rightarrow> 'c QuicSession \<Rightarrow> QuicFrame list \<Rightarrow> nat
     \<Rightarrow> ('c QuicSession \<times> QuicFrame list \<times> int) option" where
  "popStreamFrames ops s frames max_packet_size =
     popStreamFrames_loop ops (m_stream_queue s) (s\<lparr>m_stream_queue := []\<rparr>) frames 0
       (to_int32 (int max_packet_size))"

text \<open>\<open>composeNextPacket\<close>. \<open>has_data\<close> is hard-wired to true, so the ACK frame is asked for
  with \<open>only_if_queued = false\<close>. \<open>None\<close> is a failed assertion of a collaborator.\<close>

definition composeNextPacket ::
  "'c Collaborators \<Rightarrow> 'c QuicSession \<Rightarrow> nat \<Rightarrow> bool
     \<Rightarrow> (QuicPacketPayload \<times> 'c QuicSession) option" where
  "composeNextPacket ops s max_payload_size ack_allow =
     (let payload0 = \<lparr>payload_frames = [], payload_ack = None, payload_length = 0\<rparr>;
          has_retrans = (m_retrans_queue s \<noteq> []);
          (payload1, s1) =
            (if ack_allow
             then (let has_data = True;
                       get_ack_queue = (\<not> has_retrans \<and> \<not> has_data);
                       (ack_frame, c1) = handler_getAckFrame ops get_ack_queue (collab s)
                   in (case ack_frame of
                         None \<Rightarrow> (payload0, s\<lparr>collab := c1\<rparr>)
                       | Some a \<Rightarrow> (payload0\<lparr>payload_ack := Some a,
                                               payload_length := u64_add 0 (frame_size a)\<rparr>,
                                     s\<lparr>collab := c1\<rparr>)))
             else (payload0, s));
          (payload2, s2) =
            (if has_retrans
             then (let (p, q) = retransmission_loop max_payload_size (m_retrans_queue s1) payload1
                   in (p, s1\<lparr>m_retrans_queue := q\<rparr>))
             else (payload1, s1));
          (s3, frames3, control_len) =
            appendControlFrames s2 (payload_frames payload2)
              (u64_sub max_payload_size (payload_length payload2));
          payload3 = payload2\<lparr>payload_frames := frames3,
                              payload_length := u64_add (payload_length payload2) control_len\<rparr>
      in (case popStreamFrames ops s3 (payload_frames payload3)
                 (u64_sub max_payload_size (payload_length payload3)) of
            None \<Rightarrow> None
          | Some (s4, frames4, stream_len) \<Rightarrow>
              Some (payload3\<lparr>payload_frames := frames4,
                             payload_length := u64_add (payload_length payload3)
                                                 (nat (stream_len mod 2 ^ 64))\<rparr>, s4)))"

subsection \<open>Specification vocabulary and concrete inputs for the session\<close>

text \<open>A CONNECTION\_CLOSE frame with error code 0 and reason phrase \<open>bye\<close> (7 bytes on the wire).\<close>

definition close_bye :: QuicFrame where
  "close_bye = \<lparr>frame_type = CONNECTION_CLOSE, frame_stream_id = 0, frame_size = 7,
     maximum_stream_data = 0, isAppErr = False, frame_tag = 0\<rparr>"

text \<open>Collaborators with no stream and no ACK to send.\<close>

definition idle_ops :: "unit Collaborators" where
  "idle_ops = \<lparr>streams_getOrOpenReceiveStream = (\<lambda>sid c. Some (False, c)),
     streams_getOrOpenSendStream = (\<lambda>sid c. Some (False, c)),
     stream_handleStreamFrame = (\<lambda>frame c. Some (0, c)),
     stream_updateSendWin = (\<lambda>sid n c. (False, c)),
     stream_popStreamFrame = (\<lambda>sid n c. Some ((None, False), [], c)),
     conn_updateSendWin = (\<lambda>n c. c),
     handler_receivedAck = (\<lambda>frame now c. Some ([], c)),
     handler_getAckFrame = (\<lambda>only_if_queued c. (None, c))\<rparr>"

text \<open>Collaborators with one send stream, number 4, whose collaborator state counts the
  frames it was asked for: the first time it gives a frame of 100 bytes and has more data,
  afterwards it is blocked, queues a STREAM\_DATA\_BLOCKED frame on the session and has no
  more data.\<close>

definition stream_frame_4 :: QuicFrame where
  "stream_frame_4 = \<lparr>frame_type = STREAM, frame_stream_id = 4, frame_size = 100,
     maximum_stream_data = 0, isAppErr = False, frame_tag = 40\<rparr>"

definition blocked_frame_4 :: QuicFrame where
  "blocked_frame_4 = \<lparr>frame_type = STREAM_DATA_BLOCKED, frame_stream_id = 4, frame_size = 4,
     maximum_stream_data = 0, isAppErr = False, frame_tag = 41\<rparr>"

definition one_stream_ops :: "nat Collaborators" where
  "one_stream_ops = \<lparr>streams_getOrOpenReceiveStream = (\<lambda>sid c. Some (sid = 4, c)),
     streams_getOrOpenSendStream = (\<lambda>sid c. Some (sid = 4, c)),
     stream_handleStreamFrame = (\<lambda>frame c. Some (0, c)),
     stream_updateSendWin = (\<lambda>sid n c. (False, c)),
     stream_popStreamFrame =
       (\<lambda>sid n c. if c = 0 then Some ((Some stream_frame_4, True), [], Suc c)
                   else Some ((None, False), [blocked_frame_4], Suc c)),
     conn_updateSendWin = (\<lambda>n c. c),
     handler_receivedAck = (\<lambda>frame now c. Some ([], c)),
     handler_getAckFrame = (\<lambda>only_if_queued c. (None, c))\<rparr>"

text \<open>A control frame (MAX\_DATA, 5 bytes) with a tag.\<close>

definition control_frame :: "nat \<Rightarrow> QuicFrame" where
  "control_frame tag = \<lparr>frame_type = MAX_DATA, frame_stream_id = 0, frame_size = 5,
     maximum_stream_data = 4096, isAppErr = False, frame_tag = tag\<rparr>"

text \<open>A session with two control frames queued, 1 then 2, and stream 4 active, whose stream
  has already given its frame.\<close>

definition blocked_session :: "nat QuicSession" where
  "blocked_session =
     addActiveStream
       (queueControlFrame (queueControlFrame (new_QuicSession 1) (control_frame 1)) (control_frame 2)) 4"

text \<open>The sum of the sizes of a list of frames.\<close>

definition sizes :: "QuicFrame list \<Rightarrow> nat" where
  "sizes fs = sum_list (map frame_size fs)"

text \<open>The ACK frame of a payload, as a list.\<close>

definition ack_part :: "QuicFrame option \<Rightarrow> QuicFrame list" where
  "ack_part a = (case a of None \<Rightarrow> [] | Some f \<Rightarrow> [f])"

text \<open>The streams that the loop of \<open>popStreamFrames\<close> visits, in order, each with the frame it
  gave (if any), whether it has more data, and the control frames it queued on the session; a
  stream that is not found counts as drained. The visits end where the loop ends.\<close>

type_synonym visit = "nat \<times> QuicFrame option \<times> bool \<times> QuicFrame list"

fun stream_visits :: "'c Collaborators \<Rightarrow> nat list \<Rightarrow> 'c \<Rightarrow> int \<Rightarrow> int \<Rightarrow> visit list" where
  "stream_visits ops [] c payload_len remain_size = []"
| "stream_visits ops (sid # stream_queue) c payload_len remain_size =
     (if remain_size \<le> 0 then []
      else (case streams_getOrOpenSendStream ops sid c of
              None \<Rightarrow> []
            | Some (found, c1) \<Rightarrow>
                if \<not> found
                then (sid, None, False, []) # stream_visits ops stream_queue c1 payload_len remain_size
                else (case stream_popStreamFrame ops sid (nat remain_size) c1 of
                        None \<Rightarrow> []
                      | Some ((frame, has_more_data), queued, c2) \<Rightarrow>
                          (sid, frame, has_more_data, queued) #
                          (case frame of
                             None \<Rightarrow> stream_visits ops stream_queue c2 payload_len remain_size
                           | Some f \<Rightarrow>
                               (let payload_len' = to_int32 (payload_len + int (frame_size f))
                                in stream_visits ops stream_queue c2 payload_len'
                                     (to_int32 (remain_size - payload_len')))))))"

text \<open>The frames, the re-queued streams, the streams removed from the active set and the
  control frames queued of a sequence of visits.\<close>

definition visit_frames :: "visit list \<Rightarrow> QuicFrame list" where
  "visit_frames vs = List.map_filter (\<lambda>(sid, frame, has_more_data, queued). frame) vs"

definition visit_requeued :: "visit list \<Rightarrow> nat list" where
  "visit_requeued vs = map fst (filter (\<lambda>(sid, frame, has_more_data, queued). has_more_data) vs)"

definition visit_removed :: "visit list \<Rightarrow> nat set" where
  "visit_removed vs =
     set (map fst (filter (\<lambda>(sid, frame, has_more_data, queued). \<not> has_more_data) vs))"

definition visit_queued :: "visit list \<Rightarrow> QuicFrame list" where
  "visit_queued vs = concat (map (\<lambda>(sid, frame, has_more_data, queued). queued) vs)"

section \<open>Send stream (quic\_stream.cc) and STREAM frames (quic\_frame.cc)\<close>

text \<open>Modelled from the spec: \<open>MBuffer::var_size\<close> (mbuffer.h is not part of the sources), the
  length of the smallest variable-length integer encoding: 1, 2, 4 or 8 bytes.\<close>

definition var_size :: "nat \<Rightarrow> nat" where
  "var_size n = (if n < 64 then 1 else if n < 16384 then 2 else if n < 1073741824 then 4 else 8)"

text \<open>A STREAM frame object; \<open>sf_data\<close> is the data buffer (\<open>None\<close> for a null pointer) and
  \<open>sf_size\<close> and \<open>sf_valid\<close> are \<open>m_size\<close> and \<open>m_valid\<close> of the base class.\<close>

record QuicStreamFrame =
  sf_stream_id :: nat
  sf_size :: nat
  sf_valid :: bool
  sf_data :: "nat list option"
  sf_offset :: nat
  sf_has_fin :: bool
  sf_has_offset_field :: bool
  sf_has_length_field :: bool

definition new_QuicStreamFrame :: QuicStreamFrame where
  "new_QuicStreamFrame =
     \<lparr>sf_stream_id = 0, sf_size = 0, sf_valid = False, sf_data = Some [], sf_offset = 0, sf_has_fin = False,
      sf_has_offset_field = True, sf_has_length_field = True\<rparr>"

definition set_stream_id :: "QuicStreamFrame \<Rightarrow> nat \<Rightarrow> QuicStreamFrame" where
  "set_stream_id f sid = f\<lparr>sf_stream_id := sid\<rparr>"

definition set_offset :: "QuicStreamFrame \<Rightarrow> nat \<Rightarrow> QuicStreamFrame" where
  "set_offset f off = f\<lparr>sf_offset := off, sf_has_offset_field := True\<rparr>"

definition set_data :: "QuicStreamFrame \<Rightarrow> nat list option \<Rightarrow> QuicStreamFrame" where
  "set_data f d = f\<lparr>sf_data := d, sf_has_length_field := True\<rparr>"

definition set_fin_flag :: "QuicStreamFrame \<Rightarrow> QuicStreamFrame" where
  "set_fin_flag f = f\<lparr>sf_has_fin := True\<rparr>"

definition offset :: "QuicStreamFrame \<Rightarrow> nat" where
  "offset f = (if sf_has_offset_field f then sf_offset f else 0)"

text \<open>\<open>data() && data()->readAvailable()\<close>: the number of buffered bytes, 0 for no buffer.\<close>

definition readAvailable :: "nat list option \<Rightarrow> nat" where
  "readAvailable d = (case d of None \<Rightarrow> 0 | Some bytes \<Rightarrow> length bytes)"

definition QuicStreamFrame_size :: "QuicStreamFrame \<Rightarrow> nat" where
  "QuicStreamFrame_size f =
     (if sf_size f \<noteq> 0 then sf_size f
      else 1 + var_size (sf_stream_id f)
           + (if sf_has_offset_field f then var_size (sf_offset f) else 0)
           + (if sf_has_length_field f
              then var_size (readAvailable (sf_data f)) + readAvailable (sf_data f) else 0))"

definition maxDataLen :: "QuicStreamFrame \<Rightarrow> nat \<Rightarrow> nat" where
  "maxDataLen f max_size =
     (let header_len = 1 + var_size (sf_stream_id f)
                       + (if sf_has_offset_field f then var_size (sf_offset f) else 0)
                       + (if sf_has_length_field f then 1 else 0)
      in if header_len > max_size then 0
         else (let max_data_len = max_size - header_len
               in if sf_has_length_field f \<and> var_size max_data_len \<noteq> 1
                  then max_data_len - 1 else max_data_len))"

text \<open>\<open>maybeSplitOffFrame\<close> returns the split-off head (if any) and the frame it was called
  on, whose data and offset it advances; \<open>None\<close> is the dereference of a null buffer.\<close>

definition maybeSplitOffFrame ::
  "QuicStreamFrame \<Rightarrow> nat \<Rightarrow> (QuicStreamFrame option \<times> QuicStreamFrame) option" where
  "maybeSplitOffFrame f max_bytes =
     (case sf_data f of
        None \<Rightarrow> None
      | Some bytes \<Rightarrow>
          if length bytes \<le> max_bytes then Some (None, f)
          else Some (Some (set_data (set_offset (set_stream_id new_QuicStreamFrame (sf_stream_id f))
                                       (sf_offset f))
                             (Some (take max_bytes bytes))),
                     f\<lparr>sf_data := Some (drop max_bytes bytes),
                       sf_offset := u64_add (sf_offset f) max_bytes\<rparr>))"

text \<open>The stream's flow controller (quic\_flow\_control.h is not part of the sources) is a
  state \<open>'fc\<close> with the four operations the stream calls.\<close>

record 'fc FlowOps =
  sendWinSize :: "'fc \<Rightarrow> nat"
  isNewlyBlocked :: "'fc \<Rightarrow> nat \<times> 'fc"
  addBytesSent :: "nat \<Rightarrow> 'fc \<Rightarrow> 'fc"
  flow_updateSendWin :: "nat \<Rightarrow> 'fc \<Rightarrow> 'fc"

datatype StreamError =
  OK | WRITE_ON_CLOSED_STREAM | CANCEL_WRITE | SHUTDOWN | TIMEOUT | WRITE_BUFFER_EMPTY

record QuicStreamResult =
  res_ok :: bool
  res_bytes :: nat
  res_code :: StreamError

text \<open>What the stream tells its semaphore and its sender (the session).\<close>

datatype stream_event =
    SignalWrite
  | OnHasStreamData nat
  | OnStreamCompleted nat
  | QueueStreamDataBlocked nat nat
  | QueueRstStream nat nat

record 'fc QuicSndStream =
  m_stream_id :: nat
  m_num_outstanding_frames :: int
  m_retransmission_queue :: "QuicStreamFrame list"
  m_next_frame :: "QuicStreamFrame option"
  m_write_offset :: nat
  m_data_for_writing :: "nat list option"
  m_sender_alive :: bool
  m_shutdown :: bool
  m_finished_writing :: bool
  m_canceled_write :: bool
  m_fin_sent :: bool
  m_complete :: bool
  m_deadline :: nat
  m_flow_controller :: 'fc
  m_sum_sent_packet :: nat
  m_sum_retrans_packet :: nat
  m_sum_bytes_sent_packet :: nat
  m_sum_bytes_retrans_packet :: nat
  stream_events :: "stream_event list"

definition new_QuicSndStream :: "nat \<Rightarrow> 'fc \<Rightarrow> 'fc QuicSndStream" where
  "new_QuicSndStream stream_id fc =
     \<lparr>m_stream_id = stream_id, m_num_outstanding_frames = 0, m_retransmission_queue = [],
      m_next_frame = None, m_write_offset = 0, m_data_for_writing = None, m_sender_alive = True,
      m_shutdown = False, m_finished_writing = False, m_canceled_write = False,
      m_fin_sent = False, m_complete = False, m_deadline = 0, m_flow_controller = fc,
      m_sum_sent_packet = 0, m_sum_retrans_packet = 0, m_sum_bytes_sent_packet = 0,
      m_sum_bytes_retrans_packet = 0, stream_events = []\<rparr>"

definition signalWrite :: "'fc QuicSndStream \<Rightarrow> 'fc QuicSndStream" where
  "signalWrite s = s\<lparr>stream_events := stream_events s @ [SignalWrite]\<rparr>"

definition sender_event :: "stream_event \<Rightarrow> 'fc QuicSndStream \<Rightarrow> 'fc QuicSndStream" where
  "sender_event e s = (if m_sender_alive s then s\<lparr>stream_events := stream_events s @ [e]\<rparr> else s)"

definition canBufferStreamFrame :: "'fc QuicSndStream \<Rightarrow> bool" where
  "canBufferStreamFrame s \<longleftrightarrow>
     (case m_next_frame s of None \<Rightarrow> 0 | Some f \<Rightarrow> readAvailable (sf_data f))
       + readAvailable (m_data_for_writing s) \<le> 1452"

subsection \<open>Writing\<close>

text \<open>A call of \<open>write\<close> either returns a result or waits on the semaphore.\<close>

datatype write_status = Returned QuicStreamResult | Waiting

definition write_result :: "'fc QuicSndStream \<Rightarrow> nat \<Rightarrow> nat \<Rightarrow> QuicStreamResult" where
  "write_result s buffer_len byte_written =
     (if byte_written = buffer_len then \<lparr>res_ok = True, res_bytes = byte_written, res_code = OK\<rparr>
      else if m_shutdown s then \<lparr>res_ok = True, res_bytes = byte_written, res_code = SHUTDOWN\<rparr>
      else if m_canceled_write s
           then \<lparr>res_ok = True, res_bytes = byte_written, res_code = CANCEL_WRITE\<rparr>
      else \<lparr>res_ok = True, res_bytes = byte_written, res_code = OK\<rparr>)"

text \<open>One round of the loop of \<open>write\<close>, for a buffer of \<open>buffer_len\<close> bytes at time \<open>now\<close>.\<close>

definition write_iteration ::
  "'fc QuicSndStream \<Rightarrow> nat \<Rightarrow> nat \<Rightarrow> write_status \<times> 'fc QuicSndStream" where
  "write_iteration s buffer_len now =
     (case m_data_for_writing s of
        Some bytes \<Rightarrow>
          if canBufferStreamFrame s
          then (let s1 = (case m_next_frame s of
                            None \<Rightarrow>
                              s\<lparr>m_next_frame :=
                                  Some (set_data (set_stream_id (set_offset new_QuicStreamFrame
                                                                   (m_write_offset s))
                                                    (m_stream_id s))
                                          (Some bytes))\<rparr>
                          | Some f \<Rightarrow>
                              s\<lparr>m_next_frame :=
                                  Some (f\<lparr>sf_data := map_option (\<lambda>old. old @ bytes) (sf_data f)\<rparr>)\<rparr>);
                    s2 = sender_event (OnHasStreamData (m_stream_id s))
                           (s1\<lparr>m_data_for_writing := None\<rparr>)
                in (Returned (write_result s2 buffer_len buffer_len), s2))
          else if m_deadline s \<noteq> 0 \<and> m_deadline s \<le> now
          then (Returned \<lparr>res_ok = False, res_bytes = 0, res_code = TIMEOUT\<rparr>,
                s\<lparr>m_data_for_writing := None\<rparr>)
          else if m_canceled_write s \<or> m_shutdown s
          then (Returned (write_result s buffer_len (u64_sub buffer_len (length bytes))), s)
          else (Waiting, sender_event (OnHasStreamData (m_stream_id s)) s)
      | None \<Rightarrow>
          if m_deadline s \<noteq> 0 \<and> m_deadline s \<le> now
          then (Returned \<lparr>res_ok = False, res_bytes = 0, res_code = TIMEOUT\<rparr>, s)
          else (Returned (write_result s buffer_len buffer_len), s))"

text \<open>\<open>write\<close> up to its first wait; \<open>None\<close> is the failed assertion that no other write is
  pending.\<close>

definition QuicSndStream_write ::
  "'fc QuicSndStream \<Rightarrow> nat list \<Rightarrow> nat \<Rightarrow> (write_status \<times> 'fc QuicSndStream) option" where
  "QuicSndStream_write s buffer_block now =
     (if m_finished_writing s
      then Some (Returned \<lparr>res_ok = False, res_bytes = 0, res_code = WRITE_ON_CLOSED_STREAM\<rparr>, s)
      else if m_canceled_write s
      then Some (Returned \<lparr>res_ok = False, res_bytes = 0, res_code = CANCEL_WRITE\<rparr>, s)
      else if m_shutdown s
      then Some (Returned \<lparr>res_ok = False, res_bytes = 0, res_code = SHUTDOWN\<rparr>, s)
      else if m_deadline s \<noteq> 0 \<and> m_deadline s \<le> now
      then Some (Returned \<lparr>res_ok = False, res_bytes = 0, res_code = TIMEOUT\<rparr>, s)
      else if buffer_block = []
      then Some (Returned \<lparr>res_ok = False, res_bytes = 0, res_code = WRITE_BUFFER_EMPTY\<rparr>, s)
      else if m_data_for_writing s \<noteq> None then None
      else Some (write_iteration (s\<lparr>m_data_for_writing := Some buffer_block\<rparr>)
                   (length buffer_block) now))"

text \<open>\<open>write\<close> after \<open>waitWrite\<close> has returned; \<open>timed_out\<close> says that the timer fired.\<close>

definition write_resume ::
  "'fc QuicSndStream \<Rightarrow> nat \<Rightarrow> nat \<Rightarrow> bool \<Rightarrow> write_status \<times> 'fc QuicSndStream" where
  "write_resume s buffer_len now timed_out =
     (if timed_out then (Returned \<lparr>res_ok = False, res_bytes = 0, res_code = TIMEOUT\<rparr>, s)
      else write_iteration s buffer_len now)"

subsection \<open>Popping frames\<close>

definition get_data_for_writing ::
  "'fc QuicSndStream \<Rightarrow> QuicStreamFrame \<Rightarrow> nat \<Rightarrow> 'fc QuicSndStream \<times> QuicStreamFrame" where
  "get_data_for_writing s stream_frame max_bytes =
     (case m_data_for_writing s of
        None \<Rightarrow> (signalWrite s, set_data stream_frame None)
      | Some bytes \<Rightarrow>
          if length bytes \<le> max_bytes
          then (signalWrite (s\<lparr>m_data_for_writing := None\<rparr>), set_data stream_frame (Some bytes))
          else (let s1 = s\<lparr>m_data_for_writing := Some (drop max_bytes bytes)\<rparr>
                in (if canBufferStreamFrame s1 then signalWrite s1 else s1,
                    set_data stream_frame (Some (take max_bytes bytes)))))"

definition popNewStreamFrameWithoutBuffer ::
  "'fc QuicSndStream \<Rightarrow> QuicStreamFrame \<Rightarrow> nat \<Rightarrow> nat
     \<Rightarrow> bool \<times> 'fc QuicSndStream \<times> QuicStreamFrame" where
  "popNewStreamFrameWithoutBuffer s frame max_bytes send_win =
     (let max_data_len = maxDataLen frame max_bytes
      in if max_data_len = 0 then (False, s, frame)
         else (let (s1, frame1) = get_data_for_writing s frame (min max_data_len send_win)
               in (m_data_for_writing s1 \<noteq> None \<or> m_next_frame s1 \<noteq> None \<or> m_fin_sent s1,
                   s1, frame1)))"

definition popNewStreamFrame ::
  "'fc QuicSndStream \<Rightarrow> nat \<Rightarrow> nat \<Rightarrow> QuicStreamFrame option \<times> bool \<times> 'fc QuicSndStream" where
  "popNewStreamFrame s max_bytes send_win =
     (case m_next_frame s of
        Some next_frame \<Rightarrow>
          (let max_data_len = min send_win (maxDataLen next_frame max_bytes);
               (next_frame1, s1) =
                 (case sf_data next_frame of
                    None \<Rightarrow> (next_frame, signalWrite (s\<lparr>m_next_frame := None\<rparr>))
                  | Some ori_data \<Rightarrow>
                      if length ori_data > max_data_len
                      then (set_data next_frame (Some (take max_data_len ori_data)),
                            s\<lparr>m_next_frame :=
                                Some (set_data (set_offset (set_stream_id new_QuicStreamFrame
                                                              (m_stream_id s))
                                                  (u64_add (m_write_offset s) max_data_len))
                                        (Some (drop max_data_len ori_data)))\<rparr>)
                      else (next_frame, signalWrite (s\<lparr>m_next_frame := None\<rparr>)))
           in (Some next_frame1, m_next_frame s1 \<noteq> None \<or> m_data_for_writing s1 \<noteq> None, s1))
      | None \<Rightarrow>
          (let frame = set_offset (set_stream_id new_QuicStreamFrame (m_stream_id s)) (m_write_offset s);
               (has_more_data, s1, frame1) = popNewStreamFrameWithoutBuffer s frame max_bytes send_win
           in if sf_data frame1 = None \<and> \<not> sf_has_fin frame1 then (None, has_more_data, s1)
              else (Some frame1, has_more_data, s1)))"

text \<open>\<open>maybeGetRetransmission\<close> is called on a non-empty queue only.\<close>

definition maybeGetRetransmission ::
  "'fc QuicSndStream \<Rightarrow> nat \<Rightarrow> (QuicStreamFrame \<times> bool \<times> 'fc QuicSndStream) option" where
  "maybeGetRetransmission s max_bytes =
     (case m_retransmission_queue s of
        [] \<Rightarrow> None
      | frame # rest \<Rightarrow>
          (case maybeSplitOffFrame frame max_bytes of
             None \<Rightarrow> None
           | Some (Some new_frame, frame') \<Rightarrow>
               Some (new_frame, True, s\<lparr>m_retransmission_queue := frame' # rest\<rparr>)
           | Some (None, frame') \<Rightarrow>
               Some (frame, rest \<noteq> [], s\<lparr>m_retransmission_queue := rest\<rparr>)))"

text \<open>\<open>None\<close> is an abort: a null buffer in the retransmission queue, or \<open>set_fin_flag\<close> on a
  null frame.\<close>

definition popNewOrRetransmissitedStreamFrame ::
  "'fc FlowOps \<Rightarrow> 'fc QuicSndStream \<Rightarrow> nat
     \<Rightarrow> (QuicStreamFrame option \<times> bool \<times> 'fc QuicSndStream) option" where
  "popNewOrRetransmissitedStreamFrame ops s max_bytes =
     (if m_canceled_write s \<or> m_shutdown s then Some (None, False, s)
      else if m_retransmission_queue s \<noteq> []
      then (case maybeGetRetransmission s max_bytes of
              None \<Rightarrow> None
            | Some (frame, has_more_retrans, s1) \<Rightarrow> Some (Some frame, True, s1))
      else if m_data_for_writing s = None \<and> m_next_frame s = None
      then (if m_finished_writing s \<and> \<not> m_fin_sent s
            then Some (Some (set_fin_flag (set_offset (set_stream_id new_QuicStreamFrame (m_stream_id s))
                                             (m_write_offset s))),
                       False, s\<lparr>m_fin_sent := True\<rparr>)
            else Some (None, False, s))
      else (let send_win = sendWinSize ops (m_flow_controller s)
            in if send_win = 0
               then (let (blocked_at, fc1) = isNewlyBlocked ops (m_flow_controller s);
                         s1 = s\<lparr>m_flow_controller := fc1\<rparr>
                     in if blocked_at \<noteq> 0 \<and> m_sender_alive s1
                        then Some (None, False,
                                   sender_event (QueueStreamDataBlocked (m_stream_id s1) blocked_at) s1)
                        else Some (None, True, s1))
               else (let (frame, has_more_data, s1) = popNewStreamFrame s max_bytes send_win;
                         n = (case frame of None \<Rightarrow> 0 | Some f \<Rightarrow> readAvailable (sf_data f));
                         s2 = (if n \<noteq> 0
                               then s1\<lparr>m_write_offset := u64_add (m_write_offset s1) n,
                                       m_flow_controller := addBytesSent ops n (m_flow_controller s1)\<rparr>
                               else s1)
                     in if m_finished_writing s2 \<and> m_data_for_writing s2 = None
                           \<and> m_next_frame s2 = None \<and> \<not> m_fin_sent s2
                        then (case frame of
                                None \<Rightarrow> None
                              | Some f \<Rightarrow> Some (Some (set_fin_flag f), has_more_data,
                                                 s2\<lparr>m_fin_sent := True\<rparr>))
                        else Some (frame, has_more_data, s2))))"

text \<open>\<open>popStreamFrame\<close>; a frame with more than 1400 bytes of data fails an assertion.\<close>

definition popStreamFrame ::
  "'fc FlowOps \<Rightarrow> 'fc QuicSndStream \<Rightarrow> nat
     \<Rightarrow> (QuicStreamFrame option \<times> bool \<times> 'fc QuicSndStream) option" where
  "popStreamFrame ops s max_bytes =
     (case popNewOrRetransmissitedStreamFrame ops s max_bytes of
        None \<Rightarrow> None
      | Some (None, has_more_data, s1) \<Rightarrow> Some (None, has_more_data, s1)
      | Some (Some frame, has_more_data, s1) \<Rightarrow>
          if readAvailable (sf_data frame) > 1400 then None
          else Some (Some frame, has_more_data,
                     s1\<lparr>m_num_outstanding_frames := m_num_outstanding_frames s1 + 1,
                        m_sum_sent_packet := u64_add (m_sum_sent_packet s1) 1,
                        m_sum_bytes_sent_packet :=
                          u64_add (m_sum_bytes_sent_packet s1) (QuicStreamFrame_size frame)\<rparr>))"

subsection \<open>Loss, acknowledgement and closing\<close>

definition queueRetransmission ::
  "'fc QuicSndStream \<Rightarrow> QuicStreamFrame \<Rightarrow> 'fc QuicSndStream option" where
  "queueRetransmission s frame =
     (if m_canceled_write s then Some s
      else if m_num_outstanding_frames s - 1 < 0 then None
      else Some (sender_event (OnHasStreamData (m_stream_id s))
                   (s\<lparr>m_retransmission_queue := m_retransmission_queue s @ [frame],
                      m_num_outstanding_frames := m_num_outstanding_frames s - 1,
                      m_sum_retrans_packet := u64_add (m_sum_retrans_packet s) 1,
                      m_sum_bytes_retrans_packet :=
                        u64_add (m_sum_bytes_retrans_packet s) (QuicStreamFrame_size frame)\<rparr>)))"

definition isNewlyCompleted :: "'fc QuicSndStream \<Rightarrow> bool \<times> 'fc QuicSndStream" where
  "isNewlyCompleted s =
     (let completed = ((m_fin_sent s \<or> m_canceled_write s) \<and> m_num_outstanding_frames s = 0
                       \<and> m_retransmission_queue s = [])
      in if completed \<and> \<not> m_complete s then (True, s\<lparr>m_complete := True\<rparr>) else (False, s))"

definition frameAcked :: "'fc QuicSndStream \<Rightarrow> QuicStreamFrame \<Rightarrow> 'fc QuicSndStream option" where
  "frameAcked s frame =
     (if m_canceled_write s then Some s
      else if m_num_outstanding_frames s - 1 < 0 then None
      else (let (newly_complete, s1) =
                  isNewlyCompleted (s\<lparr>m_num_outstanding_frames := m_num_outstanding_frames s - 1\<rparr>)
            in Some (if newly_complete then sender_event (OnStreamCompleted (m_stream_id s1)) s1
                     else s1)))"

text \<open>\<open>close\<close> returns an error result for a cancelled stream and a null pointer otherwise.\<close>

definition close :: "'fc QuicSndStream \<Rightarrow> QuicStreamResult option \<times> 'fc QuicSndStream" where
  "close s =
     (if m_canceled_write s
      then (Some \<lparr>res_ok = False, res_bytes = 0, res_code = CANCEL_WRITE\<rparr>, s)
      else (None, sender_event (OnHasStreamData (m_stream_id s)) (s\<lparr>m_finished_writing := True\<rparr>)))"

definition cancelWrite :: "'fc QuicSndStream \<Rightarrow> 'fc QuicSndStream" where
  "cancelWrite s =
     (if m_canceled_write s then s
      else (let (is_newly_completed, s1) =
                  isNewlyCompleted (s\<lparr>m_canceled_write := True, m_num_outstanding_frames := 0,
                                      m_retransmission_queue := []\<rparr>);
                s2 = sender_event (QueueRstStream (m_stream_id s1) (m_write_offset s1)) (signalWrite s1)
            in if is_newly_completed then sender_event (OnStreamCompleted (m_stream_id s2)) s2
               else s2))"

definition closeForShutdown :: "'fc QuicSndStream \<Rightarrow> 'fc QuicSndStream" where
  "closeForShutdown s = signalWrite (s\<lparr>m_shutdown := True\<rparr>)"

definition updateSendWin :: "'fc FlowOps \<Rightarrow> 'fc QuicSndStream \<Rightarrow> nat \<Rightarrow> 'fc QuicSndStream" where
  "updateSendWin ops s limit =
     (let has_stream_data = (m_data_for_writing s \<noteq> None \<or> m_next_frame s \<noteq> None);
          s1 = s\<lparr>m_flow_controller := flow_updateSendWin ops limit (m_flow_controller s)\<rparr>
      in if has_stream_data then sender_event (OnHasStreamData (m_stream_id s1)) s1 else s1)"

subsection \<open>Runs of a send stream\<close>

text \<open>Modelled from the spec: the send side of the stream flow controller (quic\_flow\_control.h is
  not part of the sources). \<open>send_win_size\<close> is \<open>max(send_win - bytes_sent, 0)\<close>;
  \<open>is_newly_blocked\<close> returns \<open>send_win\<close> when \<open>send_win = bytes_sent\<close> and that offset was not
  reported before, and 0 otherwise; \<open>add_bytes_sent\<close> adds to \<open>bytes_sent\<close>; a window
  update raises \<open>send_win\<close>.\<close>

record StreamFlowController =
  fc_send_win :: nat
  fc_bytes_sent :: nat
  fc_last_blocked_at :: nat

definition spec_flow_ops :: "StreamFlowController FlowOps" where
  "spec_flow_ops =
     \<lparr>sendWinSize = (\<lambda>fc. if fc_bytes_sent fc \<ge> fc_send_win fc then 0
                             else fc_send_win fc - fc_bytes_sent fc),
      isNewlyBlocked = (\<lambda>fc. if fc_send_win fc = fc_bytes_sent fc
                                  \<and> fc_last_blocked_at fc \<noteq> fc_send_win fc
                               then (fc_send_win fc, fc\<lparr>fc_last_blocked_at := fc_send_win fc\<rparr>)
                               else (0, fc)),
      addBytesSent = (\<lambda>n fc. fc\<lparr>fc_bytes_sent := u64_add (fc_bytes_sent fc) n\<rparr>),
      flow_updateSendWin = (\<lambda>limit fc. if limit > fc_send_win fc then fc\<lparr>fc_send_win := limit\<rparr>
                                          else fc)\<rparr>"

text \<open>The calls made on a send stream, and a run of them that collects the frames popped.\<close>

datatype stream_op =
    OpWrite "nat list" nat
  | OpResume nat nat bool
  | OpPop nat
  | OpLost QuicStreamFrame
  | OpAcked QuicStreamFrame
  | OpClose
  | OpCancel
  | OpShutdown
  | OpUpdateSendWin nat

fun stream_step ::
  "'fc FlowOps \<Rightarrow> 'fc QuicSndStream \<Rightarrow> stream_op \<Rightarrow> (QuicStreamFrame option \<times> 'fc QuicSndStream) option" where
  "stream_step ops s (OpWrite buffer_block now) =
     map_option (\<lambda>(status, s'). (None, s')) (QuicSndStream_write s buffer_block now)"
| "stream_step ops s (OpResume buffer_len now timed_out) =
     Some (None, snd (write_resume s buffer_len now timed_out))"
| "stream_step ops s (OpPop max_bytes) =
     map_option (\<lambda>(frame, has_more_data, s'). (frame, s')) (popStreamFrame ops s max_bytes)"
| "stream_step ops s (OpLost frame) = map_option (Pair None) (queueRetransmission s frame)"
| "stream_step ops s (OpAcked frame) = map_option (Pair None) (frameAcked s frame)"
| "stream_step ops s OpClose = Some (None, snd (close s))"
| "stream_step ops s OpCancel = Some (None, cancelWrite s)"
| "stream_step ops s OpShutdown = Some (None, closeForShutdown s)"
| "stream_step ops s (OpUpdateSendWin limit) = Some (None, updateSendWin ops s limit)"

fun run_stream ::
  "'fc FlowOps \<Rightarrow> 'fc QuicSndStream \<Rightarrow> stream_op list \<Rightarrow> (QuicStreamFrame list \<times> 'fc QuicSndStream) option" where
  "run_stream ops s [] = Some ([], s)"
| "run_stream ops s (op # rest) =
     (case stream_step ops s op of
        None \<Rightarrow> None
      | Some (frame, s1) \<Rightarrow>
          (case run_stream ops s1 rest of
             None \<Rightarrow> None
           | Some (frames, s2) \<Rightarrow> Some ((case frame of None \<Rightarrow> [] | Some f \<Rightarrow> [f]) @ frames, s2)))"

text \<open>The frame that the first pop of the run below returns, and a stream with a window of
  1000 bytes.\<close>

definition first_frame :: QuicStreamFrame where
  "first_frame = \<lparr>sf_stream_id = 4, sf_size = 0, sf_valid = False, sf_data = Some [1, 2, 3], sf_offset = 0,
     sf_has_fin = False, sf_has_offset_field = True, sf_has_length_field = True\<rparr>"

definition fresh_stream :: "StreamFlowController QuicSndStream" where
  "fresh_stream = new_QuicSndStream 4 \<lparr>fc_send_win = 1000, fc_bytes_sent = 0, fc_last_blocked_at = 0\<rparr>"

text \<open>A run with two writes and two pops.\<close>

definition two_writes :: "stream_op list" where
  "two_writes = [OpWrite [1, 2, 3] 0, OpPop 1200, OpWrite [4, 5] 0, OpPop 1200]"

text \<open>The bytes buffered in the stream and not sent yet, and the bytes a run writes.\<close>

definition pending :: "'fc QuicSndStream \<Rightarrow> nat" where
  "pending s = (case m_next_frame s of None \<Rightarrow> 0 | Some f \<Rightarrow> readAvailable (sf_data f))
                 + readAvailable (m_data_for_writing s)"

fun written :: "stream_op list \<Rightarrow> nat" where
  "written [] = 0"
| "written (OpWrite buffer_block now # rest) = length buffer_block + written rest"
| "written (_ # rest) = written rest"

text \<open>The buffered next frame starts at the write offset.\<close>

definition next_frame_at_write_offset :: "'fc QuicSndStream \<Rightarrow> bool" where
  "next_frame_at_write_offset s \<longleftrightarrow>
     (case m_next_frame s of None \<Rightarrow> True
      | Some f \<Rightarrow> sf_has_offset_field f \<and> sf_offset f = m_write_offset s)"

text \<open>The invariant behind the offsets of new data; \<open>budget\<close> bounds the bytes still to be
  written, so that the write offset stays below \<open>2^64\<close>.\<close>

definition new_data_inv :: "'fc QuicSndStream \<Rightarrow> nat \<Rightarrow> bool" where
  "new_data_inv s budget \<longleftrightarrow>
     next_frame_at_write_offset s \<and> m_write_offset s + pending s + budget < 2 ^ 64"

text \<open>Whether \<open>popStreamFrame\<close> takes its frame from the retransmission queue: writing is
  neither cancelled nor shut down, and the queue is not empty.\<close>

definition is_retransmission :: "'fc QuicSndStream \<Rightarrow> bool" where
  "is_retransmission s \<longleftrightarrow>
     \<not> (m_canceled_write s \<or> m_shutdown s) \<and> m_retransmission_queue s \<noteq> []"

text \<open>A run that tags each frame popped with whether it came from the retransmission queue.\<close>

fun run_stream_tagged ::
  "'fc FlowOps \<Rightarrow> 'fc QuicSndStream \<Rightarrow> stream_op list
     \<Rightarrow> ((bool \<times> QuicStreamFrame) list \<times> 'fc QuicSndStream) option" where
  "run_stream_tagged ops s [] = Some ([], s)"
| "run_stream_tagged ops s (op # rest) =
     (case stream_step ops s op of
        None \<Rightarrow> None
      | Some (frame, s1) \<Rightarrow>
          (case run_stream_tagged ops s1 rest of
             None \<Rightarrow> None
           | Some (tagged, s2) \<Rightarrow>
               Some ((case frame of None \<Rightarrow> [] | Some f \<Rightarrow> [(is_retransmission s, f)]) @ tagged, s2)))"

text \<open>The frames of new data of a tagged run.\<close>

definition new_data_frames :: "(bool \<times> QuicStreamFrame) list \<Rightarrow> QuicStreamFrame list" where
  "new_data_frames tagged = map snd (filter (\<lambda>(retransmitted, f). \<not> retransmitted) tagged)"

text \<open>A run with two writes and two pops, the loss of the first frame, its retransmission, and
  a third write and pop.\<close>

definition lossy_run :: "stream_op list" where
  "lossy_run = two_writes @ [OpLost first_frame, OpPop 1200, OpWrite [6] 0, OpPop 1200]"

section \<open>Frame codec (quic\_frame.cc)\<close>

subsection \<open>Byte buffers and variable-length integers\<close>

text \<open>Modelled from the spec: the byte buffer \<open>MBuffer\<close> (mbuffer.h is not part of the sources).
  A buffer is the list of its readable bytes; writing appends, \<open>consume\<close> drops from the
  front, \<open>readFUint8\<close> and \<open>copyOut\<close> look at the front without consuming, and
  \<open>stream_read_assert\<close> is negative when fewer bytes remain than asked for.\<close>

definition writeFuint8 :: "nat list \<Rightarrow> nat \<Rightarrow> nat list" where
  "writeFuint8 buffer_block b = buffer_block @ [b mod 256]"

definition consume :: "nat \<Rightarrow> nat list \<Rightarrow> nat list" where
  "consume n buffer_block = drop n buffer_block"

definition copyOut :: "nat \<Rightarrow> nat list \<Rightarrow> nat list" where
  "copyOut n buffer_block = take n buffer_block"

definition readFUint8 :: "nat list \<Rightarrow> nat" where
  "readFUint8 buffer_block = (case buffer_block of [] \<Rightarrow> 0 | b # rest \<Rightarrow> b)"

definition stream_read_assert :: "nat list \<Rightarrow> nat \<Rightarrow> int" where
  "stream_read_assert buffer_block n = (if length buffer_block < n then - 1 else 0)"

text \<open>\<open>write(ptr, n)\<close> appends \<open>n\<close> bytes of a string; \<open>None\<close> when the string is shorter.\<close>

definition write_bytes :: "nat list \<Rightarrow> nat list \<Rightarrow> nat \<Rightarrow> nat list option" where
  "write_bytes buffer_block bytes n =
     (if length bytes < n then None else Some (buffer_block @ take n bytes))"

text \<open>Modelled from the spec: variable-length integers. The top two bits of the first byte
  select a 1, 2, 4 or 8 byte encoding, the remaining bits are the value, big-endian; the
  encoder takes the smallest encoding that fits (none for \<open>2^62\<close> and above: \<open>None\<close>), the
  decoder fails when fewer bytes remain than the prefix requires.\<close>

fun le_bytes :: "nat \<Rightarrow> nat \<Rightarrow> nat list" where
  "le_bytes 0 n = []"
| "le_bytes (Suc k) n = n mod 256 # le_bytes k (n div 256)"

definition be_bytes :: "nat \<Rightarrow> nat \<Rightarrow> nat list" where
  "be_bytes k n = rev (le_bytes k n)"

definition be_value :: "nat list \<Rightarrow> nat" where
  "be_value bytes = foldl (\<lambda>acc b. acc * 256 + b) 0 bytes"

definition var_prefix :: "nat \<Rightarrow> nat" where
  "var_prefix k = (if k = 1 then 0 else if k = 2 then 1 else if k = 4 then 2 else 3)"

definition var_bytes :: "nat \<Rightarrow> nat list" where
  "var_bytes n = be_bytes (var_size n) (n + var_prefix (var_size n) * 2 ^ (8 * var_size n - 2))"

definition var_encode :: "nat list \<Rightarrow> nat \<Rightarrow> nat list option" where
  "var_encode buffer_block n =
     (if n < 2 ^ 62 then Some (buffer_block @ var_bytes n) else None)"

text \<open>\<open>read_varint\<close> gives the value, the length of its encoding and the buffer after it.\<close>

definition read_varint :: "nat list \<Rightarrow> (nat \<times> nat \<times> nat list) option" where
  "read_varint buffer_block =
     (case buffer_block of
        [] \<Rightarrow> None
      | b # rest \<Rightarrow>
          (let k = 2 ^ (b div 64)
           in if length buffer_block < k then None
              else Some (be_value (take k buffer_block) mod 2 ^ (8 * k - 2), k,
                         drop k buffer_block)))"

subsection \<open>Frame objects\<close>

text \<open>Modelled from the spec: the numeric values of \<open>QuicFrameType\<close> (quic\_type.h is not part
  of the sources) are the frame tags of QUIC version 1; \<open>UNKNOWN\<close> is the first value above
  \<open>HANDSHAKE_DONE\<close>.\<close>

fun frame_type_code :: "QuicFrameType \<Rightarrow> nat" where
  "frame_type_code PADDING = 0"
| "frame_type_code PING = 1"
| "frame_type_code ACK = 2"
| "frame_type_code ACK_WITH_ECN = 3"
| "frame_type_code RESET_STREAM = 4"
| "frame_type_code STOP_SENDING = 5"
| "frame_type_code CRYPTO = 6"
| "frame_type_code NEW_TOKEN = 7"
| "frame_type_code STREAM = 8"
| "frame_type_code MAX_DATA = 16"
| "frame_type_code MAX_STREAM_DATA = 17"
| "frame_type_code MAX_STREAMS = 18"
| "frame_type_code DATA_BLOCKED = 20"
| "frame_type_code STREAM_DATA_BLOCKED = 21"
| "frame_type_code STREAM_BLOCKED = 22"
| "frame_type_code NEW_CONNECTION_ID = 24"
| "frame_type_code RETIRE_CONNECTION_ID = 25"
| "frame_type_code PATH_CHALLENGE = 26"
| "frame_type_code PATH_RESPONSE = 27"
| "frame_type_code CONNECTION_CLOSE = 28"
| "frame_type_code HANDSHAKE_DONE = 30"
| "frame_type_code UNKNOWN = 31"

datatype QuicStreamType = QuicStreamTypeBidi | QuicStreamTypeUni

text \<open>The fields of the base class \<open>QuicFrame\<close>, and one record per frame class with the
  fields it adds. Strings and identifiers are byte lists. A frame class without fields of its
  own (PING, PADDING, HANDSHAKE\_DONE) is the base record.\<close>

record QuicFrameBase =
  base_stream_id :: nat
  base_size :: nat
  base_valid :: bool

definition new_QuicFrameBase :: QuicFrameBase where
  "new_QuicFrameBase = \<lparr>base_stream_id = 0, base_size = 0, base_valid = False\<rparr>"

record QuicCryptoFrame = QuicFrameBase +
  crypto_offset :: nat
  crypto_data :: "nat list"

record QuicRstStreamFrame = QuicFrameBase +
  rst_final_offset :: nat
  rst_error_code :: nat

record QuicConnectionCloseFrame = QuicFrameBase +
  cc_error_code :: nat
  cc_frame_type :: nat
  cc_reason_phrase_len :: nat
  cc_reason_phrase :: "nat list"
  cc_is_application_error :: bool

record QuicMaxDataFrame = QuicFrameBase +
  md_maximum_data :: nat

record QuicMaxStreamDataFrame = QuicFrameBase +
  msd_maximum_stream_data :: nat

text \<open>\<open>QuicMaxStreamsFrame::m_type\<close> has no initialiser: \<open>None\<close> is the indeterminate value of
  a default-constructed frame.\<close>

record QuicMaxStreamsFrame = QuicFrameBase +
  ms_type :: "QuicStreamType option"
  ms_maximum_streams :: nat

record QuicDataBlockedFrame = QuicFrameBase +
  db_offset :: nat

record QuicStreamDataBlockedFrame = QuicFrameBase +
  sdb_offset :: nat

record QuicStreamsBlockedFrame = QuicFrameBase +
  sb_stream_type :: QuicStreamType
  sb_stream_limit :: nat

record QuicNewConnectionIdFrame = QuicFrameBase +
  nci_sequence :: nat
  nci_retire_prior_to :: nat
  nci_connection_id :: "nat list"
  nci_stateless_reset_token :: "nat list"

record QuicStopSendingFrame = QuicFrameBase +
  ss_error_code :: nat

record QuicPathFrame = QuicFrameBase +
  path_data :: "nat list"

record QuicNewTokenFrame = QuicFrameBase +
  nt_token :: "nat list"
  nt_token_len :: nat

record QuicRetireConnectionIdFrame = QuicFrameBase +
  rci_seq_num :: nat

datatype frame_object =
    StreamFrame QuicStreamFrame
  | CryptoFrame QuicCryptoFrame
  | AckFrame QuicAckFrame
  | RstStreamFrame QuicRstStreamFrame
  | PingFrame QuicFrameBase
  | PaddingFrame QuicFrameBase
  | ConnectionCloseFrame QuicConnectionCloseFrame
  | MaxDataFrame QuicMaxDataFrame
  | MaxStreamDataFrame QuicMaxStreamDataFrame
  | MaxStreamsFrame QuicMaxStreamsFrame
  | DataBlockedFrame QuicDataBlockedFrame
  | StreamDataBlockedFrame QuicStreamDataBlockedFrame
  | StreamsBlockedFrame QuicStreamsBlockedFrame
  | NewConnectionIdFrame QuicNewConnectionIdFrame
  | StopSendingFrame QuicStopSendingFrame
  | PathChallengeFrame QuicPathFrame
  | PathResponseFrame QuicPathFrame
  | NewTokenFrame QuicNewTokenFrame
  | RetireConnectionIdFrame QuicRetireConnectionIdFrame
  | HandshakeDoneFrame QuicFrameBase

subsection \<open>Writing frames\<close>

text \<open>\<open>writeTo\<close> gives the buffer after the frame was appended; \<open>None\<close> is the result
  \<open>false\<close> (an exception of the buffer was caught).\<close>

definition QuicStreamFrame_writeTo :: "QuicStreamFrame \<Rightarrow> nat list \<Rightarrow> nat list option" where
  "QuicStreamFrame_writeTo f buffer_block =
     (let type_byte = frame_type_code STREAM + (if sf_has_offset_field f then 4 else 0)
                      + (if sf_has_length_field f then 2 else 0) + (if sf_has_fin f then 1 else 0)
      in Option.bind (var_encode (writeFuint8 buffer_block type_byte) (sf_stream_id f)) (\<lambda>b1.
         Option.bind (if sf_has_offset_field f then var_encode b1 (sf_offset f) else Some b1) (\<lambda>b2.
         Option.bind (if sf_has_length_field f then var_encode b2 (readAvailable (sf_data f))
                      else Some b2) (\<lambda>b3.
         Some (b3 @ (case sf_data f of None \<Rightarrow> [] | Some bytes \<Rightarrow> bytes))))))"

definition QuicCryptoFrame_writeTo :: "QuicCryptoFrame \<Rightarrow> nat list \<Rightarrow> nat list option" where
  "QuicCryptoFrame_writeTo f buffer_block =
     Option.bind (var_encode (writeFuint8 buffer_block (frame_type_code CRYPTO)) (crypto_offset f)) (\<lambda>b1.
     Option.bind (var_encode b1 (length (crypto_data f))) (\<lambda>b2.
     write_bytes b2 (crypto_data f) (length (crypto_data f))))"

text \<open>\<open>encodeAckRange\<close> gives the gap to the range before and the length of a range;
  \<open>numEncodableAckRanges\<close> stops before the frame grows beyond 1024 bytes.\<close>

definition encodeAckRange :: "QuicAckFrame \<Rightarrow> nat \<Rightarrow> nat \<times> nat" where
  "encodeAckRange f idx =
     (if idx = 0
      then (0, u64_sub (m_largest (m_ack_ranges f ! 0)) (m_smallest (m_ack_ranges f ! 0)))
      else (u64_sub (u64_sub (m_smallest (m_ack_ranges f ! (idx - 1)))
                             (m_largest (m_ack_ranges f ! idx))) 2,
            u64_sub (m_largest (m_ack_ranges f ! idx)) (m_smallest (m_ack_ranges f ! idx))))"

fun numEncodable_loop :: "QuicAckFrame \<Rightarrow> nat \<Rightarrow> nat list \<Rightarrow> int" where
  "numEncodable_loop f len [] = int (length (m_ack_ranges f))"
| "numEncodable_loop f len (i # rest) =
     (let range_len = var_size (fst (encodeAckRange f i)) + var_size (snd (encodeAckRange f i))
      in if len + range_len > 1024 then int i - 1
         else numEncodable_loop f (len + range_len) rest)"

definition numEncodableAckRanges :: "QuicAckFrame \<Rightarrow> int" where
  "numEncodableAckRanges f =
     numEncodable_loop f (1 + var_size (largestAcked f) + var_size (m_ack_delay f) + 2)
       [1..<length (m_ack_ranges f)]"

fun write_ack_ranges :: "QuicAckFrame \<Rightarrow> nat list \<Rightarrow> nat list \<Rightarrow> nat list option" where
  "write_ack_ranges f [] buffer_block = Some buffer_block"
| "write_ack_ranges f (i # rest) buffer_block =
     Option.bind (var_encode buffer_block (fst (encodeAckRange f i))) (\<lambda>b1.
     Option.bind (var_encode b1 (snd (encodeAckRange f i))) (\<lambda>b2.
     write_ack_ranges f rest b2))"

text \<open>\<open>QuicAckFrame::writeTo\<close> always writes the tag 0x02 and never the ECN counts. A frame
  without ranges is read out of bounds: \<open>None\<close>.\<close>

definition QuicAckFrame_writeTo :: "QuicAckFrame \<Rightarrow> nat list \<Rightarrow> nat list option" where
  "QuicAckFrame_writeTo f buffer_block =
     (if m_ack_ranges f = [] then None
      else (let ack_block_count = numEncodableAckRanges f
            in Option.bind (var_encode (writeFuint8 buffer_block (frame_type_code ACK)) (largestAcked f)) (\<lambda>b1.
               Option.bind (var_encode b1 (m_ack_delay f)) (\<lambda>b2.
               Option.bind (var_encode b2 (nat ((ack_block_count - 1) mod 2 ^ 64))) (\<lambda>b3.
               Option.bind (var_encode b3 (snd (encodeAckRange f 0))) (\<lambda>b4.
               write_ack_ranges f [1..<nat ack_block_count] b4))))))"

definition QuicRstStreamFrame_writeTo :: "QuicRstStreamFrame \<Rightarrow> nat list \<Rightarrow> nat list option" where
  "QuicRstStreamFrame_writeTo f buffer_block =
     Option.bind (var_encode (writeFuint8 buffer_block (frame_type_code RESET_STREAM)) (base_stream_id f)) (\<lambda>b1.
     Option.bind (var_encode b1 (rst_final_offset f)) (\<lambda>b2.
     var_encode b2 (rst_error_code f)))"

definition QuicPingFrame_writeTo :: "QuicFrameBase \<Rightarrow> nat list \<Rightarrow> nat list option" where
  "QuicPingFrame_writeTo f buffer_block = Some (writeFuint8 buffer_block (frame_type_code PING))"

definition QuicPaddingFrame_writeTo :: "QuicFrameBase \<Rightarrow> nat list \<Rightarrow> nat list option" where
  "QuicPaddingFrame_writeTo f buffer_block = Some (writeFuint8 buffer_block (frame_type_code PADDING))"

definition QuicConnectionCloseFrame_writeTo ::
  "QuicConnectionCloseFrame \<Rightarrow> nat list \<Rightarrow> nat list option" where
  "QuicConnectionCloseFrame_writeTo f buffer_block =
     (let type_byte = (if cc_is_application_error f then 29 else frame_type_code CONNECTION_CLOSE)
      in Option.bind (var_encode (writeFuint8 buffer_block type_byte) (cc_error_code f)) (\<lambda>b1.
         Option.bind (if \<not> cc_is_application_error f then var_encode b1 (cc_frame_type f)
                      else Some b1) (\<lambda>b2.
         Option.bind (var_encode b2 (cc_reason_phrase_len f)) (\<lambda>b3.
         write_bytes b3 (cc_reason_phrase f) (length (cc_reason_phrase f))))))"

definition QuicMaxDataFrame_writeTo :: "QuicMaxDataFrame \<Rightarrow> nat list \<Rightarrow> nat list option" where
  "QuicMaxDataFrame_writeTo f buffer_block =
     var_encode (writeFuint8 buffer_block (frame_type_code MAX_DATA)) (md_maximum_data f)"

definition QuicMaxStreamDataFrame_writeTo ::
  "QuicMaxStreamDataFrame \<Rightarrow> nat list \<Rightarrow> nat list option" where
  "QuicMaxStreamDataFrame_writeTo f buffer_block =
     Option.bind (var_encode (writeFuint8 buffer_block (frame_type_code MAX_STREAM_DATA)) (base_stream_id f)) (\<lambda>b1.
     var_encode b1 (msd_maximum_stream_data f))"

text \<open>\<open>QuicMaxStreamsFrame::writeTo\<close> writes the tag 0x12 whatever the stream type.\<close>

definition QuicMaxStreamsFrame_writeTo :: "QuicMaxStreamsFrame \<Rightarrow> nat list \<Rightarrow> nat list option" where
  "QuicMaxStreamsFrame_writeTo f buffer_block =
     var_encode (writeFuint8 buffer_block (frame_type_code MAX_STREAMS)) (ms_maximum_streams f)"

definition QuicDataBlockedFrame_writeTo :: "QuicDataBlockedFrame \<Rightarrow> nat list \<Rightarrow> nat list option" where
  "QuicDataBlockedFrame_writeTo f buffer_block =
     var_encode (writeFuint8 buffer_block (frame_type_code DATA_BLOCKED)) (db_offset f)"

definition QuicStreamDataBlockedFrame_writeTo ::
  "QuicStreamDataBlockedFrame \<Rightarrow> nat list \<Rightarrow> nat list option" where
  "QuicStreamDataBlockedFrame_writeTo f buffer_block =
     Option.bind (var_encode (writeFuint8 buffer_block (frame_type_code STREAM_DATA_BLOCKED)) (base_stream_id f)) (\<lambda>b1.
     var_encode b1 (sdb_offset f))"

definition QuicStreamsBlockedFrame_writeTo ::
  "QuicStreamsBlockedFrame \<Rightarrow> nat list \<Rightarrow> nat list option" where
  "QuicStreamsBlockedFrame_writeTo f buffer_block =
     (let type_byte = (if sb_stream_type f = QuicStreamTypeBidi then frame_type_code STREAM_BLOCKED
                       else frame_type_code STREAM_BLOCKED + 1)
      in var_encode (writeFuint8 buffer_block type_byte) (sb_stream_limit f))"

text \<open>The stateless reset token is an array of 16 bytes.\<close>

definition QuicNewConnectionIdFrame_writeTo ::
  "QuicNewConnectionIdFrame \<Rightarrow> nat list \<Rightarrow> nat list option" where
  "QuicNewConnectionIdFrame_writeTo f buffer_block =
     Option.bind (var_encode (writeFuint8 buffer_block (frame_type_code NEW_CONNECTION_ID)) (nci_sequence f)) (\<lambda>b1.
     Option.bind (var_encode b1 (nci_retire_prior_to f)) (\<lambda>b2.
     Option.bind (var_encode b2 (length (nci_connection_id f))) (\<lambda>b3.
     Option.bind (write_bytes b3 (nci_connection_id f) (length (nci_connection_id f))) (\<lambda>b4.
     write_bytes b4 (nci_stateless_reset_token f) 16))))"

definition QuicStopSendingFrame_writeTo :: "QuicStopSendingFrame \<Rightarrow> nat list \<Rightarrow> nat list option" where
  "QuicStopSendingFrame_writeTo f buffer_block =
     Option.bind (var_encode (writeFuint8 buffer_block (frame_type_code STOP_SENDING)) (base_stream_id f)) (\<lambda>b1.
     var_encode b1 (ss_error_code f))"

definition QuicPathChallengeFrame_writeTo :: "QuicPathFrame \<Rightarrow> nat list \<Rightarrow> nat list option" where
  "QuicPathChallengeFrame_writeTo f buffer_block =
     write_bytes (writeFuint8 buffer_block (frame_type_code PATH_CHALLENGE)) (path_data f) 8"

definition QuicPathResponseFrame_writeTo :: "QuicPathFrame \<Rightarrow> nat list \<Rightarrow> nat list option" where
  "QuicPathResponseFrame_writeTo f buffer_block =
     write_bytes (writeFuint8 buffer_block (frame_type_code PATH_RESPONSE)) (path_data f) 8"

definition QuicNewTokenFrame_writeTo :: "QuicNewTokenFrame \<Rightarrow> nat list \<Rightarrow> nat list option" where
  "QuicNewTokenFrame_writeTo f buffer_block =
     Option.bind (var_encode (writeFuint8 buffer_block (frame_type_code NEW_TOKEN)) (nt_token_len f)) (\<lambda>b1.
     write_bytes b1 (nt_token f) (length (nt_token f)))"

definition QuicRetireConnectionIdFrame_writeTo ::
  "QuicRetireConnectionIdFrame \<Rightarrow> nat list \<Rightarrow> nat list option" where
  "QuicRetireConnectionIdFrame_writeTo f buffer_block =
     var_encode (writeFuint8 buffer_block (frame_type_code RETIRE_CONNECTION_ID)) (rci_seq_num f)"

definition QuicHandshakeDoneFrame_writeTo :: "QuicFrameBase \<Rightarrow> nat list \<Rightarrow> nat list option" where
  "QuicHandshakeDoneFrame_writeTo f buffer_block =
     Some (writeFuint8 buffer_block (frame_type_code HANDSHAKE_DONE))"

text \<open>The virtual call \<open>frame->writeTo(buffer_block)\<close>.\<close>

fun writeTo :: "frame_object \<Rightarrow> nat list \<Rightarrow> nat list option" where
  "writeTo (StreamFrame f) b = QuicStreamFrame_writeTo f b"
| "writeTo (CryptoFrame f) b = QuicCryptoFrame_writeTo f b"
| "writeTo (AckFrame f) b = QuicAckFrame_writeTo f b"
| "writeTo (RstStreamFrame f) b = QuicRstStreamFrame_writeTo f b"
| "writeTo (PingFrame f) b = QuicPingFrame_writeTo f b"
| "writeTo (PaddingFrame f) b = QuicPaddingFrame_writeTo f b"
| "writeTo (ConnectionCloseFrame f) b = QuicConnectionCloseFrame_writeTo f b"
| "writeTo (MaxDataFrame f) b = QuicMaxDataFrame_writeTo f b"
| "writeTo (MaxStreamDataFrame f) b = QuicMaxStreamDataFrame_writeTo f b"
| "writeTo (MaxStreamsFrame f) b = QuicMaxStreamsFrame_writeTo f b"
| "writeTo (DataBlockedFrame f) b = QuicDataBlockedFrame_writeTo f b"
| "writeTo (StreamDataBlockedFrame f) b = QuicStreamDataBlockedFrame_writeTo f b"
| "writeTo (StreamsBlockedFrame f) b = QuicStreamsBlockedFrame_writeTo f b"
| "writeTo (NewConnectionIdFrame f) b = QuicNewConnectionIdFrame_writeTo f b"
| "writeTo (StopSendingFrame f) b = QuicStopSendingFrame_writeTo f b"
| "writeTo (PathChallengeFrame f) b = QuicPathChallengeFrame_writeTo f b"
| "writeTo (PathResponseFrame f) b = QuicPathResponseFrame_writeTo f b"
| "writeTo (NewTokenFrame f) b = QuicNewTokenFrame_writeTo f b"
| "writeTo (RetireConnectionIdFrame f) b = QuicRetireConnectionIdFrame_writeTo f b"
| "writeTo (HandshakeDoneFrame f) b = QuicHandshakeDoneFrame_writeTo f b"

subsection \<open>Reading frames\<close>

text \<open>\<open>readFrom\<close> is called on a default-constructed frame; it gives the frame read and the
  buffer after it, and \<open>None\<close> for the result \<open>false\<close>.\<close>

definition QuicStreamFrame_readTypeByte :: "QuicStreamFrame \<Rightarrow> nat \<Rightarrow> QuicStreamFrame" where
  "QuicStreamFrame_readTypeByte f type_byte =
     (if type_byte \<noteq> 0
      then f\<lparr>sf_has_fin := (type_byte mod 2 = 1),
             sf_has_length_field := (type_byte div 2 mod 2 = 1),
             sf_has_offset_field := (type_byte div 4 mod 2 = 1)\<rparr>
      else f)"

definition QuicStreamFrame_readFrom ::
  "QuicStreamFrame \<Rightarrow> nat list \<Rightarrow> (QuicStreamFrame \<times> nat list) option" where
  "QuicStreamFrame_readFrom f buffer_block =
     Option.bind (read_varint buffer_block) (\<lambda>(stream_id, streamid_len, b1).
     Option.bind (if sf_has_offset_field f then read_varint b1 else Some (sf_offset f, 0, b1))
       (\<lambda>(off, offset_len, b2).
     Option.bind (if sf_has_length_field f then read_varint b2 else Some (0, 0, b2))
       (\<lambda>(data_len, len, b3).
     if stream_read_assert b3 data_len < 0 then None
     else Some (f\<lparr>sf_stream_id := stream_id, sf_offset := off,
                  sf_data := Some ((case sf_data f of None \<Rightarrow> [] | Some old \<Rightarrow> old)
                                   @ copyOut data_len b3),
                  sf_valid := True,
                  sf_size := 1 + streamid_len + offset_len + data_len + len\<rparr>,
                consume data_len b3))))"

definition QuicCryptoFrame_readFrom :: "nat list \<Rightarrow> (QuicCryptoFrame \<times> nat list) option" where
  "QuicCryptoFrame_readFrom buffer_block =
     Option.bind (read_varint buffer_block) (\<lambda>(off, offset_len, b1).
     Option.bind (read_varint b1) (\<lambda>(data_len, len, b2).
     if stream_read_assert b2 data_len < 0 then None
     else Some (\<lparr>base_stream_id = 0, base_size = 1 + offset_len + data_len + len,
                 base_valid = True, crypto_offset = off, crypto_data = copyOut data_len b2\<rparr>,
                consume data_len b2)))"

text \<open>The loop of \<open>QuicAckFrame::readFrom\<close> over the ACK blocks after the first.\<close>

fun read_ack_blocks ::
  "nat \<Rightarrow> nat \<Rightarrow> AckRange list \<Rightarrow> nat list \<Rightarrow> (AckRange list \<times> nat list) option" where
  "read_ack_blocks 0 smallest ranges buffer_block = Some (ranges, buffer_block)"
| "read_ack_blocks (Suc n) smallest ranges buffer_block =
     Option.bind (read_varint buffer_block) (\<lambda>(gap, gap_len, b1).
     (let largest = u64_sub (u64_sub smallest gap) 2
      in Option.bind (read_varint b1) (\<lambda>(ack_block, ack_block_len, b2).
         (let smallest' = u64_sub largest ack_block
          in read_ack_blocks n smallest' (ranges @ [AckRange smallest' largest]) b2))))"

definition QuicAckFrame_readTypeByte :: "QuicAckFrame \<Rightarrow> nat \<Rightarrow> QuicAckFrame" where
  "QuicAckFrame_readTypeByte f type_byte =
     (if type_byte \<noteq> 0 then f\<lparr>m_has_ecn := (type_byte = frame_type_code ACK_WITH_ECN)\<rparr> else f)"

definition new_QuicAckFrame :: QuicAckFrame where
  "new_QuicAckFrame = \<lparr>m_ack_ranges = [], m_ack_delay = 0, m_has_ecn = False, m_ecn_section = None,
     m_ack_size = 0, m_ack_valid = False\<rparr>"

definition QuicAckFrame_readFrom :: "QuicAckFrame \<Rightarrow> nat list \<Rightarrow> (QuicAckFrame \<times> nat list) option" where
  "QuicAckFrame_readFrom f buffer_block =
     Option.bind (read_varint buffer_block) (\<lambda>(largest, largest_ack_len, b1).
     Option.bind (read_varint b1) (\<lambda>(ack_delay, ack_delay_len, b2).
     Option.bind (read_varint b2) (\<lambda>(ack_block_count, ack_block_count_len, b3).
     Option.bind (read_varint b3) (\<lambda>(first_ack_block, first_ack_block_len, b4).
     (let smallest = u64_sub largest first_ack_block
      in Option.bind (read_ack_blocks ack_block_count smallest
                        (m_ack_ranges f @ [AckRange smallest largest]) b4) (\<lambda>(ranges, b5).
         if m_has_ecn f
         then Option.bind (read_varint b5) (\<lambda>(ect0, l0, b6).
              Option.bind (read_varint b6) (\<lambda>(ect1, l1, b7).
              Option.bind (read_varint b7) (\<lambda>(ce, l2, b8).
              Some (f\<lparr>m_ack_ranges := ranges, m_ack_delay := ack_delay,
                      m_ecn_section := Some \<lparr>m_ect0_count = ect0, m_ect1_count = ect1,
                                              m_ecn_ce_count = ce\<rparr>,
                      m_ack_valid := True\<rparr>, b8))))
         else Some (f\<lparr>m_ack_ranges := ranges, m_ack_delay := ack_delay, m_ack_valid := True\<rparr>,
                    b5)))))))"

definition QuicRstStreamFrame_readFrom :: "nat list \<Rightarrow> (QuicRstStreamFrame \<times> nat list) option" where
  "QuicRstStreamFrame_readFrom buffer_block =
     Option.bind (read_varint buffer_block) (\<lambda>(stream_id, streamid_len, b1).
     Option.bind (read_varint b1) (\<lambda>(final_offset, offset_len, b2).
     Option.bind (read_varint b2) (\<lambda>(error_code, error_code_len, b3).
     Some (\<lparr>base_stream_id = stream_id, base_size = 1 + streamid_len + error_code_len + offset_len,
            base_valid = True, rst_final_offset = final_offset, rst_error_code = error_code\<rparr>,
           b3))))"

text \<open>\<open>QuicPingFrame::readFrom\<close> and \<open>QuicPaddingFrame::readFrom\<close> only return true.\<close>

definition QuicPingFrame_readFrom :: "nat list \<Rightarrow> (QuicFrameBase \<times> nat list) option" where
  "QuicPingFrame_readFrom buffer_block = Some (new_QuicFrameBase, buffer_block)"

definition new_QuicConnectionCloseFrame :: "nat \<Rightarrow> QuicConnectionCloseFrame" where
  "new_QuicConnectionCloseFrame error_code =
     \<lparr>base_stream_id = 0, base_size = 0, base_valid = False, cc_error_code = error_code,
      cc_frame_type = frame_type_code UNKNOWN, cc_reason_phrase_len = 0, cc_reason_phrase = [],
      cc_is_application_error = False\<rparr>"

definition QuicConnectionCloseFrame_readTypeByte ::
  "QuicConnectionCloseFrame \<Rightarrow> nat \<Rightarrow> QuicConnectionCloseFrame" where
  "QuicConnectionCloseFrame_readTypeByte f type_byte =
     (let f1 = (if type_byte = 28 \<and> cc_frame_type f = frame_type_code PADDING
                then f\<lparr>cc_frame_type := frame_type_code UNKNOWN\<rparr> else f)
      in if type_byte = 29 then f1\<lparr>cc_is_application_error := True\<rparr> else f1)"

text \<open>\<open>QuicConnectionCloseFrame::readFrom\<close> checks that as many bytes remain as the
  \<^emph>\<open>encoding\<close> of the reason length has, then copies \<open>m_reason_phrase_len\<close> bytes; \<open>None\<close> is also
  the copy from a buffer that is too short.\<close>

definition QuicConnectionCloseFrame_readFrom ::
  "QuicConnectionCloseFrame \<Rightarrow> nat list \<Rightarrow> (QuicConnectionCloseFrame \<times> nat list) option" where
  "QuicConnectionCloseFrame_readFrom f buffer_block =
     Option.bind (read_varint buffer_block) (\<lambda>(error_code, error_code_len, b1).
     Option.bind (if \<not> cc_is_application_error f
                  then map_option (\<lambda>(frame_type, frame_type_len, b). (frame_type, b)) (read_varint b1)
                  else Some (cc_frame_type f, b1)) (\<lambda>(frame_type, b2).
     Option.bind (read_varint b2) (\<lambda>(reason_phrase_len, reason_phase_len, b3).
     if stream_read_assert b3 reason_phase_len < 0 then None
     else if length b3 < reason_phrase_len then None
     else Some (f\<lparr>cc_error_code := error_code, cc_frame_type := frame_type,
                  cc_reason_phrase_len := reason_phrase_len,
                  cc_reason_phrase := copyOut reason_phrase_len b3, base_valid := True\<rparr>,
                consume reason_phrase_len b3))))"

definition QuicMaxDataFrame_readFrom :: "nat list \<Rightarrow> (QuicMaxDataFrame \<times> nat list) option" where
  "QuicMaxDataFrame_readFrom buffer_block =
     Option.bind (read_varint buffer_block) (\<lambda>(maximum_data, maximum_data_len, b1).
     Some (\<lparr>base_stream_id = 0, base_size = 1 + maximum_data_len, base_valid = True,
            md_maximum_data = maximum_data\<rparr>, b1))"

definition QuicMaxStreamDataFrame_readFrom ::
  "nat list \<Rightarrow> (QuicMaxStreamDataFrame \<times> nat list) option" where
  "QuicMaxStreamDataFrame_readFrom buffer_block =
     Option.bind (read_varint buffer_block) (\<lambda>(stream_id, streamid_len, b1).
     Option.bind (read_varint b1) (\<lambda>(maximum_data, maximum_data_len, b2).
     Some (\<lparr>base_stream_id = stream_id, base_size = 1 + streamid_len + maximum_data_len,
            base_valid = True, msd_maximum_stream_data = maximum_data\<rparr>, b2)))"

definition QuicMaxStreamsFrame_readFrom :: "nat list \<Rightarrow> (QuicMaxStreamsFrame \<times> nat list) option" where
  "QuicMaxStreamsFrame_readFrom buffer_block =
     Option.bind (read_varint buffer_block) (\<lambda>(maximum_streams, maximum_data_len, b1).
     Some (\<lparr>base_stream_id = 0, base_size = 1 + maximum_data_len, base_valid = True,
            ms_type = None, ms_maximum_streams = maximum_streams\<rparr>, b1))"

definition QuicDataBlockedFrame_readFrom :: "nat list \<Rightarrow> (QuicDataBlockedFrame \<times> nat list) option" where
  "QuicDataBlockedFrame_readFrom buffer_block =
     Option.bind (read_varint buffer_block) (\<lambda>(off, offset_len, b1).
     Some (\<lparr>base_stream_id = 0, base_size = 1 + offset_len, base_valid = True, db_offset = off\<rparr>,
           b1))"

definition QuicStreamDataBlockedFrame_readFrom ::
  "nat list \<Rightarrow> (QuicStreamDataBlockedFrame \<times> nat list) option" where
  "QuicStreamDataBlockedFrame_readFrom buffer_block =
     Option.bind (read_varint buffer_block) (\<lambda>(stream_id, streamid_len, b1).
     Option.bind (read_varint b1) (\<lambda>(off, offset_len, b2).
     Some (\<lparr>base_stream_id = stream_id, base_size = 1 + streamid_len + offset_len,
            base_valid = True, sdb_offset = off\<rparr>, b2)))"

text \<open>\<open>readTypeByte\<close> and \<open>readFrom\<close> of \<open>QuicStreamsBlockedFrame\<close>, which between them set
  every field.\<close>

definition QuicStreamsBlockedFrame_readFrom ::
  "nat \<Rightarrow> nat list \<Rightarrow> (QuicStreamsBlockedFrame \<times> nat list) option" where
  "QuicStreamsBlockedFrame_readFrom type_byte buffer_block =
     Option.bind (read_varint buffer_block) (\<lambda>(stream_limit, stream_limit_len, b1).
     Some (\<lparr>base_stream_id = 0, base_size = 1 + stream_limit_len, base_valid = True,
            sb_stream_type = (if type_byte = 22 then QuicStreamTypeBidi else QuicStreamTypeUni),
            sb_stream_limit = stream_limit\<rparr>, b1))"

text \<open>\<open>QuicNewConnectionIdFrame::readFrom\<close> reads the length of the connection id as one
  byte (\<open>None\<close> also when none is left) and does not consume the reset token.\<close>

definition QuicNewConnectionIdFrame_readFrom ::
  "nat list \<Rightarrow> (QuicNewConnectionIdFrame \<times> nat list) option" where
  "QuicNewConnectionIdFrame_readFrom buffer_block =
     Option.bind (read_varint buffer_block) (\<lambda>(sequence, seq_len, b1).
     Option.bind (read_varint b1) (\<lambda>(retire_prior_to, retire_prior_len, b2).
     if b2 = [] then None
     else (let cid_len = readFUint8 b2; b3 = consume 1 b2
           in if stream_read_assert b3 cid_len < 0 then None
              else (let b4 = consume cid_len b3
                    in if stream_read_assert b4 16 < 0 then None
                       else Some (\<lparr>base_stream_id = 0,
                                    base_size = 1 + seq_len + retire_prior_len + 1 + cid_len + 16,
                                    base_valid = True, nci_sequence = sequence,
                                    nci_retire_prior_to = retire_prior_to,
                                    nci_connection_id = copyOut cid_len b3,
                                    nci_stateless_reset_token = copyOut 16 b4\<rparr>, b4)))))"

definition QuicStopSendingFrame_readFrom :: "nat list \<Rightarrow> (QuicStopSendingFrame \<times> nat list) option" where
  "QuicStopSendingFrame_readFrom buffer_block =
     Option.bind (read_varint buffer_block) (\<lambda>(stream_id, streamid_len, b1).
     Option.bind (read_varint b1) (\<lambda>(error_code, error_code_len, b2).
     Some (\<lparr>base_stream_id = stream_id, base_size = 1 + streamid_len + error_code_len,
            base_valid = True, ss_error_code = error_code\<rparr>, b2)))"

text \<open>PATH\_CHALLENGE and PATH\_RESPONSE are read by the same code; the 8 bytes are not
  consumed.\<close>

definition QuicPathFrame_readFrom :: "nat list \<Rightarrow> (QuicPathFrame \<times> nat list) option" where
  "QuicPathFrame_readFrom buffer_block =
     (if stream_read_assert buffer_block 8 < 0 then None
      else Some (\<lparr>base_stream_id = 0, base_size = 1 + 8, base_valid = True,
                  path_data = copyOut 8 buffer_block\<rparr>, buffer_block))"

definition QuicNewTokenFrame_readFrom :: "nat list \<Rightarrow> (QuicNewTokenFrame \<times> nat list) option" where
  "QuicNewTokenFrame_readFrom buffer_block =
     Option.bind (read_varint buffer_block) (\<lambda>(token_len_value, token_len, b1).
     if stream_read_assert b1 token_len_value < 0 then None
     else Some (\<lparr>base_stream_id = 0, base_size = 1 + token_len + token_len_value,
                 base_valid = True, nt_token = copyOut token_len_value b1,
                 nt_token_len = token_len_value\<rparr>, consume token_len_value b1))"

definition QuicRetireConnectionIdFrame_readFrom ::
  "nat list \<Rightarrow> (QuicRetireConnectionIdFrame \<times> nat list) option" where
  "QuicRetireConnectionIdFrame_readFrom buffer_block =
     Option.bind (read_varint buffer_block) (\<lambda>(seq_num, seq_num_len, b1).
     Some (\<lparr>base_stream_id = 0, base_size = 1 + seq_num_len, base_valid = True,
            rci_seq_num = seq_num\<rparr>, b1))"

definition QuicHandshakeDoneFrame_readFrom :: "nat list \<Rightarrow> (QuicFrameBase \<times> nat list) option" where
  "QuicHandshakeDoneFrame_readFrom buffer_block =
     Some (\<lparr>base_stream_id = 0, base_size = 1, base_valid = True\<rparr>, buffer_block)"

text \<open>\<open>QuicFrameCodec::parseFrame\<close>: \<open>None\<close> is the null pointer (a failed read or a tag
  without a frame class).\<close>

definition parseFrame :: "nat list \<Rightarrow> nat \<Rightarrow> (frame_object \<times> nat list) option" where
  "parseFrame buffer_block type_byte =
     (if 8 \<le> type_byte \<and> type_byte < 16
      then map_option (\<lambda>(f, b). (StreamFrame f, b))
             (QuicStreamFrame_readFrom (QuicStreamFrame_readTypeByte new_QuicStreamFrame type_byte)
                buffer_block)
      else if type_byte = 1 then map_option (\<lambda>(f, b). (PingFrame f, b)) (QuicPingFrame_readFrom buffer_block)
      else if type_byte = 2 \<or> type_byte = 3
      then map_option (\<lambda>(f, b). (AckFrame f, b))
             (QuicAckFrame_readFrom (QuicAckFrame_readTypeByte new_QuicAckFrame type_byte) buffer_block)
      else if type_byte = 4
      then map_option (\<lambda>(f, b). (RstStreamFrame f, b)) (QuicRstStreamFrame_readFrom buffer_block)
      else if type_byte = 5
      then map_option (\<lambda>(f, b). (StopSendingFrame f, b)) (QuicStopSendingFrame_readFrom buffer_block)
      else if type_byte = 6
      then map_option (\<lambda>(f, b). (CryptoFrame f, b)) (QuicCryptoFrame_readFrom buffer_block)
      else if type_byte = 7
      then map_option (\<lambda>(f, b). (NewTokenFrame f, b)) (QuicNewTokenFrame_readFrom buffer_block)
      else if type_byte = 16
      then map_option (\<lambda>(f, b). (MaxDataFrame f, b)) (QuicMaxDataFrame_readFrom buffer_block)
      else if type_byte = 17
      then map_option (\<lambda>(f, b). (MaxStreamDataFrame f, b)) (QuicMaxStreamDataFrame_readFrom buffer_block)
      else if type_byte = 18 \<or> type_byte = 19
      then map_option (\<lambda>(f, b). (MaxStreamsFrame f, b)) (QuicMaxStreamsFrame_readFrom buffer_block)
      else if type_byte = 20
      then map_option (\<lambda>(f, b). (DataBlockedFrame f, b)) (QuicDataBlockedFrame_readFrom buffer_block)
      else if type_byte = 21
      then map_option (\<lambda>(f, b). (StreamDataBlockedFrame f, b))
             (QuicStreamDataBlockedFrame_readFrom buffer_block)
      else if type_byte = 22 \<or> type_byte = 23
      then map_option (\<lambda>(f, b). (StreamsBlockedFrame f, b))
             (QuicStreamsBlockedFrame_readFrom type_byte buffer_block)
      else if type_byte = 24
      then map_option (\<lambda>(f, b). (NewConnectionIdFrame f, b))
             (QuicNewConnectionIdFrame_readFrom buffer_block)
      else if type_byte = 25
      then map_option (\<lambda>(f, b). (RetireConnectionIdFrame f, b))
             (QuicRetireConnectionIdFrame_readFrom buffer_block)
      else if type_byte = 26
      then map_option (\<lambda>(f, b). (PathChallengeFrame f, b)) (QuicPathFrame_readFrom buffer_block)
      else if type_byte = 27
      then map_option (\<lambda>(f, b). (PathResponseFrame f, b)) (QuicPathFrame_readFrom buffer_block)
      else if type_byte = 28 \<or> type_byte = 29
      then map_option (\<lambda>(f, b). (ConnectionCloseFrame f, b))
             (QuicConnectionCloseFrame_readFrom
                (QuicConnectionCloseFrame_readTypeByte (new_QuicConnectionCloseFrame 0) type_byte)
                buffer_block)
      else if type_byte = 30
      then map_option (\<lambda>(f, b). (HandshakeDoneFrame f, b)) (QuicHandshakeDoneFrame_readFrom buffer_block)
      else None)"

text \<open>\<open>QuicFrameCodec::parseNext\<close> skips PADDING bytes (tag 0) and parses the frame after
  them; \<open>None\<close> when the buffer ends.\<close>

fun parseNext :: "nat list \<Rightarrow> (frame_object \<times> nat list) option" where
  "parseNext [] = None"
| "parseNext (type_byte # rest) = (if type_byte = 0 then parseNext rest else parseFrame rest type_byte)"

section \<open>Received-packet history: interval merging\<close>

lemma covered_Nil [simp]: "covered [] = {}"
  by (simp add: covered_def)

lemma covered_Cons [simp]: "covered (r # rs) = {m_start r .. m_end r} \<union> covered rs"
  by (simp add: covered_def)

lemma wf_desc_Nil [simp]: "wf_desc []"
  by (simp add: wf_desc_def)

lemma wf_desc_Cons:
  "wf_desc (r # rs) \<longleftrightarrow>
     m_start r \<le> m_end r \<and> m_end r + 1 < 2 ^ 64 \<and> (\<forall>x \<in> set rs. m_end x + 1 < m_start r) \<and> wf_desc rs"
  by (auto simp: wf_desc_def)

lemma covered_below:
  assumes "wf_desc ds" "\<forall>x \<in> set ds. m_end x + 1 < s" "y \<in> covered ds"
  shows "y + 1 < s"
  using assms by (auto simp: covered_def)

lemma end_in_covered: "wf_desc ds \<Longrightarrow> x \<in> set ds \<Longrightarrow> m_end x \<in> covered ds"
  by (auto simp: covered_def wf_desc_def)

lemma u64_sub_Suc0:
  "pn < 2 ^ 64 \<Longrightarrow> u64_sub pn (Suc 0) = (if pn = 0 then 2 ^ 64 - 1 else pn - 1)"
proof (cases pn)
  case 0
  then show ?thesis by (simp add: u64_sub_def)
next
  case (Suc k)
  assume lt: "pn < 2 ^ 64"
  have "u64_sub pn (Suc 0) = (k + 2 ^ 64) mod 2 ^ 64"
    unfolding u64_sub_def Suc by simp
  also have "\<dots> = k mod 2 ^ 64" by simp
  also have "\<dots> = k" using lt Suc by simp
  finally show ?thesis using Suc by simp
qed

lemma u64_add_Suc0: "pn + 1 < 2 ^ 64 \<Longrightarrow> u64_add pn (Suc 0) = Suc pn"
  by (simp add: u64_add_def)

lemma u64_sub_1_eq: "pn + 1 < 2 ^ 64 \<Longrightarrow> e + 1 < 2 ^ 64 \<Longrightarrow> (e = u64_sub pn 1) = (Suc e = pn)"
  using u64_sub_Suc0[of pn] by (auto split: if_splits)

lemma u64_add_1_eq: "pn + 1 < 2 ^ 64 \<Longrightarrow> u64_add pn 1 = Suc pn"
  using u64_add_Suc0[of pn] by simp

lemma walk_Cons:
  assumes "pn + 1 < 2 ^ 64" "e + 1 < 2 ^ 64"
  shows "addToRanges_walk pn (PacketInterval s e # ds) =
     (if s \<le> pn \<and> pn \<le> e then (PacketInterval s e # ds, False)
      else if Suc e = pn then (PacketInterval s pn # ds, True)
      else if s = Suc pn then
        (case ds of
           [] \<Rightarrow> ([PacketInterval pn e], True)
         | PacketInterval ps pe # ds' \<Rightarrow>
             if u64_add pe 1 = pn then (PacketInterval ps e # ds', True)
             else (PacketInterval pn e # ds, True))
      else if e < pn then (PacketInterval pn pn # PacketInterval s e # ds, True)
      else (case addToRanges_walk pn ds of (r, b) \<Rightarrow> (PacketInterval s e # r, b)))"
  unfolding addToRanges_walk.simps u64_sub_1_eq[OF assms] u64_add_1_eq[OF assms(1)] ..

lemma walk_inv:
  assumes "wf_desc ds" "pn + 1 < 2 ^ 64" "addToRanges_walk pn ds = (r, b)"
  shows "wf_desc r \<and> covered r = insert pn (covered ds)"
  using assms
proof (induction pn ds arbitrary: r b rule: addToRanges_walk.induct)
  case (1 pn)
  then show ?case by (auto simp: wf_desc_Cons)
next
  case (2 pn s e ds)
  from "2.prems"(1) have se: "s \<le> e" "e + 1 < 2 ^ 64" and below: "\<forall>x \<in> set ds. m_end x + 1 < s"
    and wfds: "wf_desc ds"
    by (auto simp: wf_desc_Cons)
  note pn = "2.prems"(2)
  note eq = "2.prems"(3)[unfolded walk_Cons[OF pn se(2)]]
  consider (dup) "s \<le> pn \<and> pn \<le> e"
    | (ext_end) "\<not> (s \<le> pn \<and> pn \<le> e)" "Suc e = pn"
    | (ext_start) "\<not> (s \<le> pn \<and> pn \<le> e)" "Suc e \<noteq> pn" "s = Suc pn"
    | (above) "\<not> (s \<le> pn \<and> pn \<le> e)" "Suc e \<noteq> pn" "s \<noteq> Suc pn" "e < pn"
    | (rec) "\<not> (s \<le> pn \<and> pn \<le> e)" "Suc e \<noteq> pn" "s \<noteq> Suc pn" "\<not> e < pn"
    by blast
  then show ?case
  proof cases
    case dup
    with eq have "r = PacketInterval s e # ds" by simp
    with dup "2.prems"(1) show ?thesis by auto
  next
    case ext_end
    with eq have r: "r = PacketInterval s pn # ds" by simp
    show ?thesis using ext_end se below wfds pn unfolding r
      by (auto simp: wf_desc_Cons)
  next
    case ext_start
    show ?thesis
    proof (cases ds)
      case Nil
      with ext_start eq have r: "r = [PacketInterval pn e]" by simp
      show ?thesis using ext_start se Nil unfolding r by (auto simp: wf_desc_Cons)
    next
      case (Cons p ds')
      obtain ps pe where p: "p = PacketInterval ps pe" by (cases p)
      from wfds Cons p have pwf: "ps \<le> pe" "pe + 1 < 2 ^ 64" "\<forall>x \<in> set ds'. m_end x + 1 < ps" "wf_desc ds'"
        by (auto simp: wf_desc_Cons)
      from below Cons p ext_start have pes: "pe < pn" by auto
      note addpe = u64_add_1_eq[OF pwf(2)]
      show ?thesis
      proof (cases "Suc pe = pn")
        case True
        with ext_start eq Cons p have r: "r = PacketInterval ps e # ds'"
          by (simp add: u64_add_Suc0[OF pwf(2)])
        show ?thesis using True ext_start se pwf Cons p unfolding r
          by (auto simp: wf_desc_Cons)
      next
        case False
        with ext_start eq Cons p have r: "r = PacketInterval pn e # ds"
          by (simp add: u64_add_Suc0[OF pwf(2)])
        have "\<forall>x \<in> set ds. m_end x + 1 < pn"
          using False pes pwf Cons p by auto
        then show ?thesis using ext_start se wfds unfolding r
          by (auto simp: wf_desc_Cons)
      qed
    qed
  next
    case above
    with eq have r: "r = PacketInterval pn pn # PacketInterval s e # ds" by simp
    have "e + 1 < pn" using above by auto
    then show ?thesis using se below wfds pn unfolding r
      by (auto simp: wf_desc_Cons)
  next
    case rec
    obtain r' b' where w: "addToRanges_walk pn ds = (r', b')" by (cases "addToRanges_walk pn ds")
    with rec eq have r: "r = PacketInterval s e # r'" by simp
    have pns: "pn + 1 < s" using rec by auto
    have c2: "e \<noteq> u64_sub pn 1" using rec(2) u64_sub_1_eq[OF pn se(2)] by simp
    have c3: "s \<noteq> u64_add pn 1" using rec(3) u64_add_1_eq[OF pn] by simp
    from "2.IH"[OF rec(1) c2 c3 rec(4) wfds pn w]
    have ih: "wf_desc r'" "covered r' = insert pn (covered ds)" by auto
    have "\<forall>x \<in> set r'. m_end x + 1 < s"
    proof
      fix x assume x: "x \<in> set r'"
      then have "m_end x \<in> covered r'" using ih(1) by (rule end_in_covered[rotated])
      then have "m_end x = pn \<or> m_end x \<in> covered ds" using ih(2) by auto
      then show "m_end x + 1 < s"
        using pns covered_below[OF wfds below] by auto
    qed
    then show ?thesis using ih se unfolding r by (auto simp: wf_desc_Cons)
  qed
qed

lemma covered_append [simp]: "covered (xs @ ys) = covered xs \<union> covered ys"
  by (auto simp: covered_def)

lemma covered_rev [simp]: "covered (rev xs) = covered xs"
  by (auto simp: covered_def)

lemma maybeDeleteOldRanges_loop_id:
  "length rs \<le> MAX_NUMBER_ACK_RANGES \<Longrightarrow> maybeDeleteOldRanges_loop rs = rs"
  by (cases rs) auto

lemma addToRanges_inv:
  assumes "wf_desc (rev (m_ranges h))" "pn + 1 < 2 ^ 64"
  shows "wf_desc (rev (m_ranges (fst (addToRanges h pn))))
       \<and> covered (m_ranges (fst (addToRanges h pn))) = insert pn (covered (m_ranges h))
       \<and> m_deleted_below (fst (addToRanges h pn)) = m_deleted_below h"
proof (cases "m_ranges h = []")
  case True
  then show ?thesis using assms(2) by (simp add: addToRanges_def wf_desc_Cons)
next
  case False
  obtain r b where w: "addToRanges_walk pn (rev (m_ranges h)) = (r, b)"
    by (cases "addToRanges_walk pn (rev (m_ranges h))")
  from walk_inv[OF assms(1) assms(2) w] False w show ?thesis
    by (simp add: addToRanges_def)
qed

lemma receivedPackets_inv:
  assumes "wf_desc (rev (m_ranges h))" "m_deleted_below h = 0"
    "\<forall>pn \<in> set pns. pn + 1 < 2 ^ 64" "no_discard h pns"
  shows "wf_desc (rev (m_ranges (receivedPackets h pns)))
       \<and> covered (m_ranges (receivedPackets h pns)) = covered (m_ranges h) \<union> set pns"
  using assms
proof (induction pns arbitrary: h)
  case Nil
  then show ?case by simp
next
  case (Cons pn pns)
  let ?a = "fst (addToRanges h pn)"
  let ?h = "fst (receivedPacket h pn)"
  from Cons.prems have pn: "pn + 1 < 2 ^ 64" by simp
  note a = addToRanges_inv[OF Cons.prems(1) pn]
  from Cons.prems(4) have len: "length (m_ranges ?a) \<le> MAX_NUMBER_ACK_RANGES"
    and nd: "no_discard ?h pns" by simp_all
  have h: "?h = ?a"
    using Cons.prems(2) len
    by (cases "addToRanges h pn")
      (simp add: receivedPacket_def maybeDeleteOldRanges_def maybeDeleteOldRanges_loop_id)
  have step: "receivedPackets h (pn # pns) = receivedPackets ?a pns"
    by (simp add: h)
  have "wf_desc (rev (m_ranges (receivedPackets ?a pns)))
       \<and> covered (m_ranges (receivedPackets ?a pns)) = covered (m_ranges ?a) \<union> set pns"
    using a Cons.prems(2) Cons.prems(3) nd unfolding h
    by (intro Cons.IH) simp_all
  then show ?case unfolding step using a by auto
qed

lemma wf_desc_sep:
  "wf_desc ds \<Longrightarrow> x \<in> set ds \<Longrightarrow> y \<in> set ds \<Longrightarrow>
     x = y \<or> m_end y + 1 < m_start x \<or> m_end x + 1 < m_start y"
  by (induction ds) (auto simp: wf_desc_Cons)

lemma single_interval:
  assumes "wf_desc ds" "covered ds = {a..b}" "a \<le> b"
  shows "ds = [PacketInterval a b]"
proof (cases ds)
  case Nil
  with assms show ?thesis by auto
next
  case (Cons r rest)
  obtain s e where r: "r = PacketInterval s e" by (cases r)
  from assms(1) Cons r have wf: "s \<le> e" "\<forall>x \<in> set rest. m_end x + 1 < s" "wf_desc rest"
    by (auto simp: wf_desc_Cons)
  have "rest = []"
  proof (rule ccontr)
    assume "rest \<noteq> []"
    then obtain x where x: "x \<in> set rest" by (cases rest) auto
    with wf(3) have xin: "m_end x \<in> covered rest" by (rule end_in_covered)
    from x wf(2) have lt: "m_end x + 1 < s" by simp
    have "m_end x \<in> {a..b}" "s \<in> {a..b}"
      using xin wf(1) assms(2) Cons r by auto
    then have "m_end x + 1 \<in> {a..b}" using lt by auto
    then have "m_end x + 1 \<in> covered ds" using assms(2) by simp
    then have "m_end x + 1 \<in> covered rest" using lt Cons r by auto
    then obtain y where y: "y \<in> set rest" "m_start y \<le> m_end x + 1" "m_end x + 1 \<le> m_end y"
      by (auto simp: covered_def)
    from wf(3) x have xwf: "m_start x \<le> m_end x" by (simp add: wf_desc_def)
    from wf_desc_sep[OF wf(3) x y(1)] y(2,3) xwf show False by auto
  qed
  with assms(2) Cons r wf(1) have "{s..e} = {a..b}" by simp
  with wf(1) assms(3) have "s = a \<and> e = b" by simp
  with Cons r \<open>rest = []\<close> show ?thesis by simp
qed

lemma upt_0_numeral: "[0..<numeral n] = 0 # [Suc 0..<numeral n]"
  by (simp add: upt_rec)

lemma upt_Suc0_numeral:
  "[Suc 0..<numeral n] = (if Suc 0 < numeral n then Suc 0 # [2..<numeral n] else [])"
  by (simp add: upt_rec numeral_2_eq_2)

lemmas rph_eval = receivedPacket_def addToRanges_def maybeDeleteOldRanges_def empty_history_def
  MAX_NUMBER_ACK_RANGES_def u64_add_def u64_sub_def upt_0_numeral upt_Suc0_numeral

lemma perm_of_upt:
  assumes "distinct xs" "length xs = n" "\<forall>x \<in> set xs. x < n"
  shows "set xs = {0..<n}"
proof (rule card_subset_eq)
  show "finite {0..<n}" by simp
  show "set xs \<subseteq> {0..<n}" using assms(3) by auto
  show "card (set xs) = card {0..<n}" using assms(1,2) by (simp add: distinct_card)
qed

lemma discarding_order_unfold:
  "discarding_order = map (\<lambda>i. 2 * i) [0..<65] @ [129..<256] @ rev (map (\<lambda>i. 2 * i + 1) [0..<64])"
  by (fact discarding_order_def)

lemma discarding_order_perm: "distinct discarding_order \<and> set discarding_order = {0..<256}"
proof -
  have d: "distinct discarding_order"
    by (auto simp: discarding_order_def distinct_map inj_on_def) presburger+
  have l: "length discarding_order = 256" by (simp add: discarding_order_def)
  have b: "\<forall>x \<in> set discarding_order. x < 256" by (auto simp: discarding_order_def)
  from perm_of_upt[OF d l b] d show ?thesis by simp
qed

lemma discarding_order_result:
  "m_ranges (receivedPackets empty_history discarding_order) = [PacketInterval 1 255]"
  by (simp add: discarding_order_def rph_eval)

lemma ascending_order_perm: "distinct ascending_order \<and> set ascending_order = {0..<256}"
  by (simp add: ascending_order_def)

lemma ascending_order_no_discard: "no_discard empty_history ascending_order"
  by (simp add: ascending_order_def rph_eval)

lemma ascending_order_result:
  "m_ranges (receivedPackets empty_history ascending_order) = [PacketInterval 0 255]"
  by (simp add: ascending_order_def rph_eval)

text \<open>
  Claim C7, as stated: from an empty history, \<open>receivedPacket\<close> called once with each
  element of any permutation of 0..255 leaves exactly the interval [0,255]. It fails for
  \<open>discarding_order\<close>: after 0, 2, .., 128 the list holds 65 intervals and
  \<open>maybeDeleteOldRanges\<close> pops [0,0]; packet number 0 is never seen again and the final
  list is [1,255].
\<close>

theorem C7_permutation_counterexample:
  "distinct discarding_order \<and> set discarding_order = {0..<256}
   \<and> m_ranges (receivedPackets empty_history discarding_order) \<noteq> [PacketInterval 0 255]"
  using discarding_order_perm discarding_order_result by simp

text \<open>
  Claim C7, amended: from an empty history, \<open>receivedPacket\<close> called once with each
  element of a permutation of 0..255 during which the list never grows beyond
  \<open>MAX_NUMBER_ACK_RANGES\<close> = 64 intervals (so that \<open>maybeDeleteOldRanges\<close> discards
  nothing) leaves exactly the interval [0,255].
\<close>

theorem C7_permutation_no_discard:
  assumes "distinct pns" "set pns = {0..<256}" "no_discard empty_history pns"
  shows "m_ranges (receivedPackets empty_history pns) = [PacketInterval 0 255]"
proof -
  have b: "\<forall>pn \<in> set pns. pn + 1 < 2 ^ 64" using assms(2) by auto
  have "wf_desc (rev (m_ranges (receivedPackets empty_history pns)))
      \<and> covered (m_ranges (receivedPackets empty_history pns))
          = covered (m_ranges empty_history) \<union> set pns"
    by (rule receivedPackets_inv[OF _ _ b assms(3)]) (simp_all add: empty_history_def)
  then have wf: "wf_desc (rev (m_ranges (receivedPackets empty_history pns)))"
    and c: "covered (rev (m_ranges (receivedPackets empty_history pns))) = {0..255}"
    using assms(2) by (auto simp: empty_history_def)
  from single_interval[OF wf c]
  have "rev (m_ranges (receivedPackets empty_history pns)) = [PacketInterval 0 255]"
    by simp
  then show ?thesis by simp
qed

theorem C7_permutation_no_discard_witness:
  "distinct ascending_order \<and> set ascending_order = {0..<256}
   \<and> no_discard empty_history ascending_order
   \<and> m_ranges (receivedPackets empty_history ascending_order) = [PacketInterval 0 255]"
  using C7_permutation_no_discard[of ascending_order]
    ascending_order_perm ascending_order_no_discard by simp

section \<open>ACK scheduling\<close>

lemma hasNewMissingPackets_indep:
  "hasNewMissingPackets (t\<lparr>m_ack_eliciting_packets_received_since_last_ack := c\<rparr>) = hasNewMissingPackets t"
  "hasNewMissingPackets (t\<lparr>m_ack_queued := q\<rparr>) = hasNewMissingPackets t"
  "hasNewMissingPackets (t\<lparr>m_ack_alarm := a\<rparr>) = hasNewMissingPackets t"
  by (simp_all add: hasNewMissingPackets_def split: option.splits)

text \<open>
  Claim C8, as stated: with a previous ACK, when the count of ack-eliciting packets does
  not reach the threshold and no alarm is armed, \<open>maybeQueueAck\<close> sets the alarm to
  \<open>recv_time + max_ack_delay\<close>. It fails when the packet was missing before: the count goes
  from 0 to 1, the ACK is queued at once and the alarm is back to 0 when the function returns.
\<close>

theorem C8_counterexample:
  "m_last_ack gap_filling_tracker \<noteq> None
   \<and> m_ack_eliciting_packets_received_since_last_ack gap_filling_tracker + 1 < PacketsBeforeAck default_config
   \<and> m_ack_alarm gap_filling_tracker = 0
   \<and> map_option m_ack_alarm (maybeQueueAck default_config gap_filling_tracker 2 1000 True) = Some 0
   \<and> u64_add 1000 (MAX_ACK_DELAY default_config) = 26000"
  by (simp add: gap_filling_tracker_def new_tracker_def default_config_def maybeQueueAck_def
      hasNewMissingPackets_def getHighestAckRange_def largestAcked_def u64_add_def u64_sub_def
      AckRange_len_def)

text \<open>
  Claim C8, amended: in \<open>maybeQueueAck\<close>, when a previous ACK exists, no ACK is queued yet
  and the history is not empty: if the count of ack-eliciting packets since the last ACK
  reaches \<open>packets_before_ack\<close> (default 2), the ACK is queued (and the alarm cleared);
  otherwise, if the packet was not missing before and there is no new missing packet to
  report, the ACK is not queued and the alarm is \<open>recv_time + max_ack_delay\<close> (default
  25000 microseconds) when none was armed, and unchanged when one was; a packet that was
  missing, or a new missing packet, queues the ACK and clears the alarm.
\<close>

theorem C8_maybeQueueAck:
  assumes "m_last_ack t \<noteq> None" "\<not> m_ack_queued t" "hasNewMissingPackets t = Some new_missing"
  shows "\<exists>t'. maybeQueueAck cfg t pn recv_time was_missing = Some t'
     \<and> (m_ack_eliciting_packets_received_since_last_ack t + 1 \<ge> PacketsBeforeAck cfg
          \<longrightarrow> m_ack_queued t' \<and> m_ack_alarm t' = 0)
     \<and> (m_ack_eliciting_packets_received_since_last_ack t + 1 < PacketsBeforeAck cfg
          \<and> \<not> was_missing \<and> \<not> new_missing \<and> m_ack_alarm t = 0
          \<longrightarrow> \<not> m_ack_queued t' \<and> m_ack_alarm t' = u64_add recv_time (MAX_ACK_DELAY cfg))
     \<and> (m_ack_eliciting_packets_received_since_last_ack t + 1 < PacketsBeforeAck cfg
          \<and> \<not> was_missing \<and> \<not> new_missing \<and> m_ack_alarm t \<noteq> 0
          \<longrightarrow> \<not> m_ack_queued t' \<and> m_ack_alarm t' = m_ack_alarm t)
     \<and> (was_missing \<or> new_missing \<longrightarrow> m_ack_queued t' \<and> m_ack_alarm t' = 0)"
  using assms
  by (auto simp: maybeQueueAck_def Let_def hasNewMissingPackets_indep)

theorem C8_maybeQueueAck_witness:
  "m_last_ack gap_filling_tracker \<noteq> None \<and> \<not> m_ack_queued gap_filling_tracker
   \<and> hasNewMissingPackets gap_filling_tracker = Some False
   \<and> (\<exists>t'. maybeQueueAck default_config gap_filling_tracker 2 1000 False = Some t'
          \<and> \<not> m_ack_queued t' \<and> m_ack_alarm t' = 26000)"
proof -
  have h: "m_last_ack gap_filling_tracker \<noteq> None" "\<not> m_ack_queued gap_filling_tracker"
    "hasNewMissingPackets gap_filling_tracker = Some False"
    by (simp_all add: gap_filling_tracker_def new_tracker_def hasNewMissingPackets_def
        getHighestAckRange_def largestAcked_def u64_add_def u64_sub_def AckRange_len_def)
  have c: "m_ack_eliciting_packets_received_since_last_ack gap_filling_tracker + 1
             < PacketsBeforeAck default_config"
    "m_ack_alarm gap_filling_tracker = 0" "u64_add 1000 (MAX_ACK_DELAY default_config) = 26000"
    by (simp_all add: gap_filling_tracker_def new_tracker_def default_config_def u64_add_def)
  from C8_maybeQueueAck[OF h, of default_config 2 1000 False] h c show ?thesis
    by auto
qed

section \<open>Sent-packet handler\<close>

subsection \<open>Evaluation rules for the concrete inputs\<close>

lemmas sph_eval = sentPacket_def sentPacketImpl_def history_sentPacket_def history_push_back_def
  new_SentPacketHandler_def new_SentPacketHistory_def setLossDetectionTimer_def
  hasOutstandingPackets_def firstOutstanding_def const_rtt_ops_def packet_1_def packet_2_def
  u64_add_def u64_sub_def history_pns_def Let_def

lemmas tracked_one_eval = tracked_one_def new_SentPacketHandler_def packet_1_def const_rtt_ops_def

subsection \<open>Recording a sent packet\<close>

text \<open>
  Claim C4: after \<open>SentPacketHandler::sentPacket\<close> the history's list should be strictly sorted
  by packet number, each tracked number appearing once. The code fails it on the first
  ack-eliciting packet: \<open>sentPacketImpl\<close> records the packet in the history and
  \<open>sentPacket\<close> records it again (the history rejects only \<open>pn < highest_sent\<close>), so the list
  holds packet number 1 twice.
\<close>

theorem C4_sentPacket_records_twice:
  "map_option history_pns (sentPacket const_rtt_ops (new_SentPacketHandler () [packet_1]) 0 100)
     = Some [1, 1]"
  by (simp add: sph_eval)

subsection \<open>ACK frames that match nothing\<close>

lemma advance_ack_range_subset: "set (advance_ack_range pn rs) \<subseteq> set rs"
  by (induction pn rs rule: advance_ack_range.induct) auto

lemma advance_ack_range_nonempty: "rs \<noteq> [] \<Longrightarrow> advance_ack_range pn rs \<noteq> []"
  by (induction pn rs rule: advance_ack_range.induct) auto

lemma collect_acked_matches:
  assumes "ref \<in> set (collect_acked heap lo hi missing rs nodes)" "missing \<longrightarrow> rs \<noteq> []"
  shows "ref \<in> snd ` set nodes \<and>
         (if missing then \<exists>r \<in> set rs. m_smallest r \<le> m_pn (heap ! ref) \<and> m_pn (heap ! ref) \<le> m_largest r
          else lo \<le> m_pn (heap ! ref) \<and> m_pn (heap ! ref) \<le> hi)"
  using assms
proof (induction heap lo hi missing rs nodes rule: collect_acked.induct)
  case (1 heap lo hi missing rs)
  then show ?case by simp
next
  case (2 heap lo hi missing rs n r nodes)
  let ?pn = "m_pn (heap ! r)"
  let ?rs' = "advance_ack_range ?pn rs"
  show ?case
  proof (cases missing)
    case False
    with "2.prems" "2.IH"(1,4) show ?thesis
      by (auto simp: Let_def split: if_splits)
  next
    case True
    with "2.prems" have ne: "rs \<noteq> []" by simp
    then have ne': "?rs' \<noteq> []" by (rule advance_ack_range_nonempty)
    then have hd_in: "hd ?rs' \<in> set rs"
      using advance_ack_range_subset[of ?pn rs] by (auto dest: hd_in_set)
    have sub: "\<And>x. x \<in> set ?rs' \<Longrightarrow> x \<in> set rs"
      using advance_ack_range_subset[of ?pn rs] by auto
    have key: "\<not> ?pn < m_smallest (hd ?rs') \<Longrightarrow> \<not> m_largest (hd ?rs') < ?pn \<Longrightarrow>
        \<exists>ra \<in> set rs. m_smallest ra \<le> ?pn \<and> ?pn \<le> m_largest ra"
      using hd_in by (intro bexI[of _ "hd ?rs'"]) auto
    from "2.prems"(1) True show ?thesis
      using "2.IH"(1)[OF refl] "2.IH"(2)[OF refl _ _ True refl refl] "2.IH"(3)[OF refl _ _ True refl refl]
        ne ne' sub key
      by (auto simp: Let_def split: if_splits)
  qed
qed

lemma collect_acked_no_match:
  assumes "m_ack_ranges frame \<noteq> []"
    and "\<forall>(n, r) \<in> set nodes. \<not> ack_matches frame (m_pn (heap ! r))"
  shows "collect_acked heap (lowestAcked frame) (largestAcked frame) (hasMissingRanges frame)
           (rev (m_ack_ranges frame)) nodes = []"
proof (rule ccontr)
  assume "\<not> ?thesis"
  then obtain ref where ref: "ref \<in> set (collect_acked heap (lowestAcked frame) (largestAcked frame)
      (hasMissingRanges frame) (rev (m_ack_ranges frame)) nodes)"
    by (cases "collect_acked heap (lowestAcked frame) (largestAcked frame)
      (hasMissingRanges frame) (rev (m_ack_ranges frame)) nodes") auto
  have ne: "hasMissingRanges frame \<longrightarrow> rev (m_ack_ranges frame) \<noteq> []"
    using assms(1) by simp
  note m = collect_acked_matches[OF ref ne]
  then obtain n where n: "(n, ref) \<in> set nodes" by auto
  have "ack_matches frame (m_pn (heap ! ref))"
  proof (cases "hasMissingRanges frame")
    case True
    with m show ?thesis by (auto simp: ack_matches_def)
  next
    case False
    with assms(1) obtain r where r: "m_ack_ranges frame = [r]"
      by (cases "m_ack_ranges frame") (auto simp: hasMissingRanges_def)
    with m False show ?thesis
      by (auto simp: ack_matches_def lowestAcked_def largestAcked_def)
  qed
  with assms(2) n show False by auto
qed

text \<open>
  Claim C10: when the ACK frame matches no packet tracked in the history (in particular when
  its largest acknowledged number is above \<open>largest_sent\<close>), \<open>receivedAck\<close> returns false and
  leaves the handler as it was (RTT statistics, congestion events, PTO count, alarm, history,
  bytes in flight), except that \<open>largest_acked\<close> may be raised and the scratch vector of
  acknowledged packets is cleared.
\<close>

theorem C10_receivedAck_no_match:
  assumes "m_ack_ranges frame \<noteq> []"
    and "largestAcked frame > m_largest_sent s
         \<or> (\<forall>(n, r) \<in> set (m_packet_list (m_history s)).
               \<not> ack_matches frame (m_pn (packets s ! r)))"
  shows "receivedAck ops s frame recv_time =
           Some (if largestAcked frame > m_largest_sent s then s
                 else s\<lparr>m_largest_acked := max (m_largest_acked s) (largestAcked frame),
                        m_acked_packets := []\<rparr>, False)"
proof (cases "largestAcked frame > m_largest_sent s")
  case True
  then show ?thesis by (simp add: receivedAck_def)
next
  case False
  with assms(2) have nm: "\<forall>(n, r) \<in> set (m_packet_list (m_history s)).
               \<not> ack_matches frame (m_pn (packets s ! r))" by simp
  from collect_acked_no_match[OF assms(1) nm] False show ?thesis
    by (simp add: receivedAck_def detectAndRemoveAckedPackets_def Let_def)
qed

theorem C10_receivedAck_no_match_witness:
  "m_ack_ranges ack_0 \<noteq> [] \<and> \<not> largestAcked ack_0 > m_largest_sent tracked_one
   \<and> \<not> ack_matches ack_0 (m_pn (packets tracked_one ! 0))
   \<and> receivedAck const_rtt_ops tracked_one ack_0 2000 =
        Some (tracked_one\<lparr>m_largest_acked := 1, m_acked_packets := []\<rparr>, False)"
proof -
  have a: "m_ack_ranges ack_0 \<noteq> []" by (simp add: ack_0_def)
  have b: "\<not> largestAcked ack_0 > m_largest_sent tracked_one"
    by (simp add: ack_0_def largestAcked_def tracked_one_eval)
  have c: "\<not> ack_matches ack_0 (m_pn (packets tracked_one ! 0))"
    by (simp add: ack_matches_def ack_0_def tracked_one_eval)
  have d: "\<forall>(n, r) \<in> set (m_packet_list (m_history tracked_one)).
             \<not> ack_matches ack_0 (m_pn (packets tracked_one ! r))"
    using c by (simp add: tracked_one_def)
  have e: "max (m_largest_acked tracked_one) (largestAcked ack_0) = 1"
    by (simp add: ack_0_def largestAcked_def tracked_one_eval)
  from C10_receivedAck_no_match[OF a disjI2, OF d, of const_rtt_ops 2000] a b c e
  show ?thesis by simp
qed

subsection \<open>The invariant of the bytes in flight\<close>

text \<open>
  Claim C3: after every \<open>receivedAck\<close> the bytes in flight should equal the sum of the lengths
  of the history's entries that are included in the bytes in flight. With packets 1 (50 bytes)
  and 2 (70 bytes) sent through \<open>sentPacket\<close> and both acknowledged, the history still holds
  the numbers 1, 2, 2 (packet 1 was entered twice, its second entry is never removed because
  the map knows one entry only, and the failed removal ends the processing): the counter is
  120 and the sum over the history is 190.
\<close>

theorem C3_receivedAck_inflight_mismatch:
  "map_option (\<lambda>(s, b). (history_pns s, m_bytes_inflight s, history_inflight_sum s, b)) sent_two_acked
     = Some ([1, 2, 2], 120, 190, False)"
  by (simp add: sent_two_acked_def sph_eval receivedAck_def detectAndRemoveAckedPackets_def ack_1_2_def
      largestAcked_def lowestAcked_def hasMissingRanges_def history_remove_def history_inflight_sum_def)

subsection \<open>The loss delay\<close>

lemma bitlen_le: "n < 2 ^ k \<Longrightarrow> bitlen n \<le> k"
proof (induction k arbitrary: n)
  case 0
  then show ?case by (simp add: bitlen.simps)
next
  case (Suc k)
  show ?case
  proof (cases "n = 0")
    case True
    then show ?thesis by (simp add: bitlen.simps)
  next
    case False
    from Suc.prems have "n div 2 < 2 ^ k" by simp
    from Suc.IH[OF this] False show ?thesis
      by (subst bitlen.simps) simp
  qed
qed

lemma f32_round_exact: "n < 2 ^ 24 \<Longrightarrow> f32_round n = n"
  using bitlen_le[of n 24] by (simp add: f32_round_def Let_def)

lemma loss_delay_ceil_exact:
  assumes "max_rtt < 2 ^ 20"
  shows "loss_delay_ceil max_rtt = max 1 ((9 * max_rtt + 7) div 8)"
proof -
  have a: "f32_round max_rtt = max_rtt" using assms by (intro f32_round_exact) simp
  have b: "f32_round (9 * max_rtt) = 9 * max_rtt" using assms by (intro f32_round_exact) simp
  have c: "(9 * max_rtt + 7) div 8 < 2 ^ 64" using assms by simp
  show ?thesis
  proof (cases "9 * max_rtt > 8")
    case True
    then show ?thesis using c by (simp add: loss_delay_ceil_def a b Let_def max_def)
  next
    case False
    then have "(9 * max_rtt + 7) div 8 \<le> 1" by simp
    with False show ?thesis by (simp add: loss_delay_ceil_def a b Let_def max_def)
  qed
qed

lemma bitlen_ge: "n \<noteq> 0 \<Longrightarrow> 2 ^ (bitlen n - 1) \<le> n"
proof (induction n rule: bitlen.induct)
  case (1 n)
  show ?case
  proof (cases "n div 2 = 0")
    case True
    with "1.prems" have "n = 1" by (cases n) auto
    then show ?thesis by (simp add: bitlen.simps)
  next
    case False
    from "1.IH"[OF "1.prems" False] have ih: "2 ^ (bitlen (n div 2) - 1) \<le> n div 2" .
    from False have pos: "bitlen (n div 2) \<noteq> 0" by (subst bitlen.simps) simp
    have "bitlen n = Suc (bitlen (n div 2))" using "1.prems" by (subst bitlen.simps) simp
    then have "2 ^ (bitlen n - 1) = 2 * 2 ^ (bitlen (n div 2) - 1)"
      using pos by (cases "bitlen (n div 2)") simp_all
    also have "\<dots> \<le> 2 * (n div 2)" using ih by simp
    also have "\<dots> \<le> n" by simp
    finally show ?thesis .
  qed
qed

lemma f32_round_le: "f32_round n \<le> 2 * n"
proof (cases "bitlen n \<le> 24")
  case True
  then show ?thesis by (simp add: f32_round_def)
next
  case False
  define sh where "sh = bitlen n - 24"
  define q where "q = n div 2 ^ sh"
  have "bitlen 0 = 0" by (simp add: bitlen.simps)
  with False have n0: "n \<noteq> 0" by (cases "n = 0") simp_all
  have "(2::nat) ^ sh \<le> 2 ^ (bitlen n - 1)" unfolding sh_def by (rule power_increasing) simp_all
  also have "\<dots> \<le> n" by (rule bitlen_ge[OF n0])
  finally have sh: "2 ^ sh \<le> n" .
  have "f32_round n \<le> (q + 1) * 2 ^ sh"
    using False by (simp add: f32_round_def Let_def sh_def q_def)
  also have "\<dots> = q * 2 ^ sh + 2 ^ sh" by (simp add: algebra_simps)
  also have "q * 2 ^ sh \<le> n" unfolding q_def by simp
  finally show ?thesis using sh by simp
qed

lemma loss_delay_ceil_bounds:
  assumes "max_rtt < 2 ^ 60"
  shows "0 < loss_delay_ceil max_rtt" "loss_delay_ceil max_rtt < 2 ^ 64"
proof -
  define p8 where "p8 = f32_round (9 * f32_round max_rtt)"
  define l8 where "l8 = (if p8 > 8 then p8 else 8)"
  have "f32_round max_rtt \<le> 2 * max_rtt" by (rule f32_round_le)
  then have "9 * f32_round max_rtt \<le> 18 * max_rtt" by simp
  moreover have "p8 \<le> 2 * (9 * f32_round max_rtt)" unfolding p8_def by (rule f32_round_le)
  ultimately have "p8 \<le> 36 * max_rtt" by simp
  with assms have "p8 < 36 * 2 ^ 60" by simp
  then have l8: "8 \<le> l8" "l8 < 36 * 2 ^ 60" by (auto simp: l8_def)
  then have "(l8 + 7) div 8 < 2 ^ 64" "0 < (l8 + 7) div 8" by auto
  moreover have "loss_delay_ceil max_rtt = ((l8 + 7) div 8) mod 2 ^ 64"
    by (simp add: loss_delay_ceil_def Let_def l8_def p8_def)
  ultimately show "0 < loss_delay_ceil max_rtt" "loss_delay_ceil max_rtt < 2 ^ 64" by simp_all
qed

lemma f32_round_rel:
  "16777215 * n \<le> 16777216 * f32_round n \<and> 16777216 * f32_round n \<le> 16777217 * n"
proof (cases "bitlen n \<le> 24")
  case True
  then show ?thesis by (simp add: f32_round_def)
next
  case False
  define sh where "sh = bitlen n - 24"
  define q where "q = n div 2 ^ sh"
  define r where "r = n mod 2 ^ sh"
  define half :: nat where "half = 2 ^ (sh - 1)"
  have sh: "sh = Suc (sh - 1)" using False by (simp add: sh_def)
  have two: "(2::nat) ^ sh = 2 * half" unfolding half_def by (subst sh) simp
  have "bitlen 0 = 0" by (simp add: bitlen.simps)
  with False have n0: "n \<noteq> 0" by (cases "n = 0") simp_all
  have "bitlen n - 1 = 24 + (sh - 1)" using False by (simp add: sh_def)
  then have "(2::nat) ^ (bitlen n - 1) = 16777216 * half" by (simp add: half_def power_add)
  with bitlen_ge[OF n0] have big: "16777216 * half \<le> n" by simp
  have n: "n = q * (2 * half) + r" unfolding q_def r_def two[symmetric]
    by (rule div_mult_mod_eq[symmetric])
  have r: "r < 2 * half" unfolding r_def two[symmetric] by simp
  define up where "up \<longleftrightarrow> r > half \<or> (r = half \<and> odd q)"
  have "f32_round n = (if up then q + 1 else q) * 2 ^ sh"
    using False unfolding f32_round_def Let_def up_def q_def r_def half_def sh_def by simp
  then have f: "f32_round n = (if up then q + 1 else q) * (2 * half)" by (simp only: two)
  show ?thesis
  proof (cases up)
    case True
    then have "half \<le> r" by (auto simp: up_def)
    moreover from True f have "f32_round n + r = n + 2 * half" by (simp add: n algebra_simps)
    ultimately show ?thesis using big r by linarith
  next
    case False
    then have "r \<le> half" by (auto simp: up_def)
    moreover from False f have "f32_round n + r = n" by (simp add: n)
    ultimately show ?thesis using big by linarith
  qed
qed

text \<open>When nine eighths of the RTT are at least 1000, the floor of the loss delay does not
  bind, and the delay is the product, with the rounding errors of single precision, rounded
  up.\<close>

lemma loss_delay_ceil_rel:
  assumes "8000 \<le> 9 * rtt" "rtt < 2 ^ 60"
  shows "281474943156225 * (9 * rtt) \<le> 281474976710656 * (8 * loss_delay_ceil rtt)"
    and "281474976710656 * (8 * loss_delay_ceil rtt)
           < 281475010265089 * (9 * rtt) + 281474976710656 * 8"
proof -
  define a where "a = f32_round rtt"
  define p8 where "p8 = f32_round (9 * a)"
  from f32_round_rel[of rtt] have a: "16777215 * rtt \<le> 16777216 * a" "16777216 * a \<le> 16777217 * rtt"
    by (simp_all add: a_def)
  from f32_round_rel[of "9 * a"] have p: "16777215 * (9 * a) \<le> 16777216 * p8"
    "16777216 * p8 \<le> 16777217 * (9 * a)"
    by (simp_all add: p8_def)
  have lo: "281474943156225 * (9 * rtt) \<le> 281474976710656 * p8" using a(1) p(1) by linarith
  have hi: "281474976710656 * p8 \<le> 281475010265089 * (9 * rtt)" using a(2) p(2) by linarith
  from lo assms(1) have gt: "p8 > 8" by linarith
  from hi assms(2) have "p8 < 2 ^ 64" by simp
  then have small: "(p8 + 7) div 8 < 2 ^ 64" by simp
  have d: "loss_delay_ceil rtt = (p8 + 7) div 8"
    using gt small by (simp add: loss_delay_ceil_def Let_def a_def p8_def)
  have "p8 \<le> 8 * ((p8 + 7) div 8)" "8 * ((p8 + 7) div 8) < p8 + 8" by presburger+
  with lo hi show "281474943156225 * (9 * rtt) \<le> 281474976710656 * (8 * loss_delay_ceil rtt)"
    and "281474976710656 * (8 * loss_delay_ceil rtt)
           < 281475010265089 * (9 * rtt) + 281474976710656 * 8"
    unfolding d by linarith+
qed

lemma const_rtt_delay:
  "loss_delay_ceil (max (latestRTT const_rtt_ops (m_rtt_stats tracked_one))
                        (smoothedRTT const_rtt_ops (m_rtt_stats tracked_one))) = 9"
  by (simp add: const_rtt_ops_def loss_delay_ceil_exact)

subsection \<open>Loss detection\<close>

lemma accounted_inflight_update:
  assumes "r < length heap"
  shows "accounted_inflight (heap[r := q]) =
     accounted_inflight heap + (if m_included_in_bytes_inflight q then m_length q else 0)
       - (if m_included_in_bytes_inflight (heap ! r) then m_length (heap ! r) else 0)"
  using assms unfolding accounted_inflight_def map_update
  by (subst sum_list_update) simp_all

lemma accounted_inflight_ge:
  assumes "r < length heap" "m_included_in_bytes_inflight (heap ! r)"
  shows "m_length (heap ! r) \<le> accounted_inflight heap"
proof -
  have "(map (\<lambda>p. if m_included_in_bytes_inflight p then m_length p else 0) heap) ! r
          \<le> accounted_inflight heap"
    unfolding accounted_inflight_def using assms(1) by (intro elem_le_sum_list) simp
  with assms show ?thesis by simp
qed

text \<open>One step on a packet that is declared lost.\<close>

lemma detectLost_step_lost:
  assumes r: "r < length (packets s)"
    and inv: "m_bytes_inflight s = accounted_inflight (packets s)"
    and le: "m_pn (packets s ! r) \<le> m_largest_acked s"
    and cand: "\<not> m_declared_lost (packets s ! r)" "\<not> m_skipped (packets s ! r)"
    and cond: "loss_condition lst (m_largest_acked s) (packets s ! r)"
    and fr: "m_frames (packets s ! r) \<noteq> []"
  shows "\<exists>s1. detectLost_step lst d prior r (s, acc)
                = Some ((s1, if m_is_bbr s then acc @ [r] else acc), True)
           \<and> packets s1 = (packets s)[r := mark_lost (packets s ! r)]
           \<and> m_bytes_inflight s1 = accounted_inflight (packets s1)
           \<and> m_loss_time s1 = m_loss_time s \<and> m_largest_acked s1 = m_largest_acked s
           \<and> m_is_bbr s1 = m_is_bbr s \<and> m_history s1 = m_history s
           \<and> events s1 = events s @ loss_events (m_is_bbr s) prior (packets s ! r)"
proof (cases "m_included_in_bytes_inflight (packets s ! r)")
  case True
  have ge: "m_length (packets s ! r) \<le> m_bytes_inflight s"
    using accounted_inflight_ge[OF r True] inv by simp
  show ?thesis
    using r le cand cond fr True ge inv
    by (simp add: detectLost_step_def Let_def loss_condition_def removeFromBytesInflight_def
        queueFramesForRetransmission_def mark_lost_def accounted_inflight_update
        loss_events_def)
next
  case False
  have same: "mark_lost (packets s ! r) = (packets s ! r)\<lparr>m_declared_lost := True, m_frames := []\<rparr>"
    using False by (simp add: mark_lost_def)
  show ?thesis
    using r le cand cond fr False inv
    by (simp add: detectLost_step_def Let_def loss_condition_def removeFromBytesInflight_def
        queueFramesForRetransmission_def same accounted_inflight_update loss_events_def)
qed

lemma loss_visited_Nil [simp]: "loss_visited heap la [] = []"
  by (simp add: loss_visited_def)

lemma loss_visited_Cons:
  "loss_visited heap la ((n, r) # nodes) =
     (if m_pn (heap ! r) \<le> la then r # loss_visited heap la nodes else [])"
  by (simp add: loss_visited_def)

lemma mark_lost_simps [simp]:
  "m_pn (mark_lost p) = m_pn p" "m_send_time (mark_lost p) = m_send_time p"
  "m_skipped (mark_lost p) = m_skipped p" "m_length (mark_lost p) = m_length p"
  "m_declared_lost (mark_lost p)" "\<not> m_included_in_bytes_inflight (mark_lost p)"
  "m_frames (mark_lost p) = []"
  by (simp_all add: mark_lost_def)

lemma loss_condition_mark_lost [simp]:
  "loss_condition lst la (mark_lost p) = loss_condition lst la p"
  by (simp add: loss_condition_def)

lemma loss_visited_update:
  assumes "\<forall>(n, x) \<in> set nodes. x < length heap"
  shows "loss_visited (heap[r := mark_lost (heap ! r)]) la nodes = loss_visited heap la nodes"
  using assms
proof (induction nodes)
  case Nil
  then show ?case by simp
next
  case (Cons a nodes)
  obtain n x where a: "a = (n, x)" by (cases a)
  with Cons show ?case
    by (cases "x = r") (simp_all add: loss_visited_Cons)
qed

lemma visited_valid:
  assumes "\<forall>(n, x) \<in> set nodes. x < length heap" "x \<in> set (loss_visited heap la nodes)"
  shows "x < length heap"
proof -
  from assms(2) have "x \<in> snd ` set nodes"
    unfolding loss_visited_def by (auto dest: set_takeWhileD)
  with assms(1) show ?thesis by auto
qed

lemma lost_refs_update:
  assumes "\<forall>(n, x) \<in> set nodes. x < length heap" "r < length heap"
  shows "lost_refs lst (heap[r := mark_lost (heap ! r)]) la nodes = lost_refs lst heap la nodes - {r}"
  unfolding lost_refs_def loss_visited_update[OF assms(1)]
  using assms(2) visited_valid[OF assms(1)]
  by (auto simp: nth_list_update)

lemma pending_refs_update:
  assumes "\<forall>(n, x) \<in> set nodes. x < length heap" "r < length heap"
    "loss_condition lst la (heap ! r)"
  shows "pending_refs lst (heap[r := mark_lost (heap ! r)]) la nodes = pending_refs lst heap la nodes"
  unfolding pending_refs_def loss_visited_update[OF assms(1)]
  using assms(2,3) visited_valid[OF assms(1)]
  by (intro filter_cong) (auto simp: nth_list_update)

lemma expected_loss_time_update:
  assumes "\<forall>(n, x) \<in> set nodes. x < length heap" "r < length heap"
    "loss_condition lst la (heap ! r)"
  shows "expected_loss_time lst d (heap[r := mark_lost (heap ! r)]) la nodes
           = expected_loss_time lst d heap la nodes"
proof -
  have "\<And>x. x \<in> set (pending_refs lst heap la nodes) \<Longrightarrow> x \<noteq> r"
    using assms(3) by (auto simp: pending_refs_def)
  then show ?thesis
    unfolding expected_loss_time_def pending_refs_update[OF assms]
    using assms(2) by (auto split: list.splits simp: nth_list_update)
qed

lemma removeAll_firsts: "removeAll r (firsts xs) = firsts (filter (\<lambda>x. x \<noteq> r) xs)"
proof (induction xs)
  case Nil
  then show ?case by simp
next
  case (Cons x xs)
  have comm: "removeAll r (removeAll x (firsts xs)) = removeAll x (removeAll r (firsts xs))"
    by (simp add: removeAll_filter_not_eq conj_commute)
  show ?case
  proof (cases "x = r")
    case True
    have "removeAll r (removeAll r (firsts xs)) = removeAll r (firsts xs)" by simp
    with Cons True show ?thesis by simp
  next
    case False
    with Cons comm show ?thesis by simp
  qed
qed

lemma set_firsts [simp]: "set (firsts xs) = set xs"
  by (induction xs) auto

lemma set_lost_sequence: "set (lost_sequence lst heap la nodes) = lost_refs lst heap la nodes"
  by (auto simp: lost_sequence_def lost_refs_def)

lemma lost_sequence_update:
  assumes "\<forall>(n, x) \<in> set nodes. x < length heap" "r < length heap"
  shows "lost_sequence lst (heap[r := mark_lost (heap ! r)]) la nodes
           = removeAll r (lost_sequence lst heap la nodes)"
proof -
  have "filter (\<lambda>x. \<not> m_declared_lost (heap[r := mark_lost (heap ! r)] ! x)
                      \<and> \<not> m_skipped (heap[r := mark_lost (heap ! r)] ! x)
                      \<and> loss_condition lst la (heap[r := mark_lost (heap ! r)] ! x))
            (loss_visited heap la nodes)
        = filter (\<lambda>x. x \<noteq> r)
            (filter (\<lambda>x. \<not> m_declared_lost (heap ! x) \<and> \<not> m_skipped (heap ! x)
                           \<and> loss_condition lst la (heap ! x))
               (loss_visited heap la nodes))"
    unfolding filter_filter
    using assms(2) by (intro filter_cong) (auto simp: nth_list_update)
  then show ?thesis
    unfolding lost_sequence_def loss_visited_update[OF assms(1)] removeAll_firsts by simp
qed

lemma detectLost_loop_spec:
  assumes "\<forall>(n, r) \<in> set nodes. r < length (packets s)"
    and "m_bytes_inflight s = accounted_inflight (packets s)"
    and "\<forall>r \<in> lost_refs lst (packets s) (m_largest_acked s) nodes. m_frames (packets s ! r) \<noteq> []"
    and "\<forall>r \<in> set (loss_visited (packets s) (m_largest_acked s) nodes).
           u64_add (m_send_time (packets s ! r)) d \<noteq> 0"
  shows "\<exists>s' acc'. detectLost_loop lst d prior nodes (s, acc) = Some (s', acc')
           \<and> loss_post lst d prior nodes s acc s' acc'"
  using assms
proof (induction nodes arbitrary: s acc)
  case Nil
  then show ?case
    by (simp add: loss_post_def lost_refs_def lost_sequence_def expected_loss_time_def pending_refs_def)
next
  case (Cons a nodes)
  obtain n r where a: "a = (n, r)" by (cases a)
  let ?la = "m_largest_acked s"
  let ?p = "packets s ! r"
  from Cons.prems(1) a have r: "r < length (packets s)"
    and valid: "\<forall>(n, x) \<in> set nodes. x < length (packets s)" by auto
  show ?case
  proof (cases "m_pn ?p \<le> ?la")
    case False
    then have step: "detectLost_step lst d prior r (s, acc) = Some ((s, acc), False)"
      by (simp add: detectLost_step_def Let_def)
    from False have vis: "loss_visited (packets s) ?la ((n, r) # nodes) = []"
      by (simp add: loss_visited_Cons)
    show ?thesis
      unfolding a using step Cons.prems(2)
      by (simp add: loss_post_def lost_refs_def lost_sequence_def expected_loss_time_def
          pending_refs_def vis)
  next
    case le: True
    then have vis: "loss_visited (packets s) ?la ((n, r) # nodes)
                      = r # loss_visited (packets s) ?la nodes"
      by (simp add: loss_visited_Cons)
    show ?thesis
    proof (cases "m_declared_lost ?p \<or> m_skipped ?p")
      case True
      then have step: "detectLost_step lst d prior r (s, acc) = Some ((s, acc), True)"
        using le by (auto simp: detectLost_step_def Let_def)
      have L: "lost_refs lst (packets s) ?la ((n, r) # nodes) = lost_refs lst (packets s) ?la nodes"
        using True by (auto simp: lost_refs_def vis)
      have P: "pending_refs lst (packets s) ?la ((n, r) # nodes) = pending_refs lst (packets s) ?la nodes"
        using True by (auto simp: pending_refs_def vis)
      have S: "lost_sequence lst (packets s) ?la ((n, r) # nodes) = lost_sequence lst (packets s) ?la nodes"
        using True by (auto simp: lost_sequence_def vis)
      have "\<exists>s' acc'. detectLost_loop lst d prior nodes (s, acc) = Some (s', acc')
           \<and> loss_post lst d prior nodes s acc s' acc'"
        using Cons.prems valid unfolding a L by (intro Cons.IH) (auto simp: vis)
      then show ?thesis
        unfolding a using step by (auto simp: loss_post_def L S expected_loss_time_def P)
    next
      case cand: False
      show ?thesis
      proof (cases "loss_condition lst ?la ?p")
        case cond: True
        have rL: "r \<in> lost_refs lst (packets s) ?la ((n, r) # nodes)"
          using cand cond by (simp add: lost_refs_def vis)
        with Cons.prems(3) a have fr: "m_frames ?p \<noteq> []" by simp
        from detectLost_step_lost[OF r Cons.prems(2) le _ _ cond fr, of d prior acc] cand
        obtain s1 where step: "detectLost_step lst d prior r (s, acc)
                = Some ((s1, if m_is_bbr s then acc @ [r] else acc), True)"
          and pk: "packets s1 = (packets s)[r := mark_lost ?p]"
          and inv1: "m_bytes_inflight s1 = accounted_inflight (packets s1)"
          and lt1: "m_loss_time s1 = m_loss_time s" and la1: "m_largest_acked s1 = ?la"
          and bbr1: "m_is_bbr s1 = m_is_bbr s" and h1: "m_history s1 = m_history s"
          and ev1: "events s1 = events s @ loss_events (m_is_bbr s) prior ?p"
          by auto
        let ?acc1 = "if m_is_bbr s then acc @ [r] else acc"
        have L1: "lost_refs lst (packets s1) ?la nodes = lost_refs lst (packets s) ?la nodes - {r}"
          unfolding pk by (rule lost_refs_update[OF valid r])
        have L: "lost_refs lst (packets s) ?la ((n, r) # nodes)
                   = insert r (lost_refs lst (packets s) ?la nodes)"
          using cand cond by (auto simp: lost_refs_def vis)
        have V1: "loss_visited (packets s1) ?la nodes = loss_visited (packets s) ?la nodes"
          unfolding pk by (rule loss_visited_update[OF valid])
        have E1: "expected_loss_time lst d (packets s1) ?la nodes
                    = expected_loss_time lst d (packets s) ?la nodes"
          unfolding pk by (rule expected_loss_time_update[OF valid r cond])
        have E: "expected_loss_time lst d (packets s) ?la ((n, r) # nodes)
                    = expected_loss_time lst d (packets s) ?la nodes"
          using cond by (simp add: expected_loss_time_def pending_refs_def vis)
        have ih: "\<exists>s' acc'. detectLost_loop lst d prior nodes (s1, ?acc1) = Some (s', acc')
           \<and> loss_post lst d prior nodes s1 ?acc1 s' acc'"
        proof (rule Cons.IH)
          show "\<forall>(n, x) \<in> set nodes. x < length (packets s1)" using valid by (simp add: pk)
          show "m_bytes_inflight s1 = accounted_inflight (packets s1)" by (rule inv1)
          show "\<forall>x \<in> lost_refs lst (packets s1) (m_largest_acked s1) nodes.
                  m_frames (packets s1 ! x) \<noteq> []"
            unfolding la1 L1 using Cons.prems(3) unfolding a L
            by (auto simp: pk nth_list_update)
          show "\<forall>x \<in> set (loss_visited (packets s1) (m_largest_acked s1) nodes).
                  u64_add (m_send_time (packets s1 ! x)) d \<noteq> 0"
            unfolding la1 V1 using Cons.prems(4) r unfolding a vis
            by (auto simp: pk nth_list_update)
        qed
        then obtain s' acc' where loop: "detectLost_loop lst d prior nodes (s1, ?acc1) = Some (s', acc')"
          and post: "loss_post lst d prior nodes s1 ?acc1 s' acc'" by blast
        let ?seq = "lost_sequence lst (packets s) ?la nodes"
        have S1: "lost_sequence lst (packets s1) ?la nodes = removeAll r ?seq"
          unfolding pk by (rule lost_sequence_update[OF valid r])
        have S: "lost_sequence lst (packets s) ?la ((n, r) # nodes) = r # removeAll r ?seq"
          using cand cond by (simp add: lost_sequence_def vis)
        have M: "map (\<lambda>x. loss_events (m_is_bbr s) prior (packets s1 ! x)) (removeAll r ?seq)
                   = map (\<lambda>x. loss_events (m_is_bbr s) prior (packets s ! x)) (removeAll r ?seq)"
          by (intro map_cong) (auto simp: pk)
        have old: "m_bytes_inflight s' = accounted_inflight (packets s')
           \<and> m_largest_acked s' = m_largest_acked s \<and> m_is_bbr s' = m_is_bbr s
           \<and> m_history s' = m_history s
           \<and> length (packets s') = length (packets s)
           \<and> (\<forall>x < length (packets s).
                 packets s' ! x =
                   (if x \<in> lost_refs lst (packets s) ?la ((n, r) # nodes)
                    then mark_lost (packets s ! x) else packets s ! x))
           \<and> m_loss_time s' =
                 (if m_loss_time s \<noteq> 0 then m_loss_time s
                  else expected_loss_time lst d (packets s) ?la ((n, r) # nodes))"
          using post r unfolding loss_post_def la1 L1 L E E1 lt1 bbr1 h1
          by (auto simp: pk nth_list_update)
        have acc: "acc' = acc @ (if m_is_bbr s then lost_sequence lst (packets s) ?la ((n, r) # nodes) else [])"
          using post unfolding loss_post_def la1 bbr1 S1 S by simp
        have ev: "events s' = events s @
           concat (map (\<lambda>x. loss_events (m_is_bbr s) prior (packets s ! x))
                     (lost_sequence lst (packets s) ?la ((n, r) # nodes)))"
          using post unfolding loss_post_def la1 bbr1 S1 S M ev1 by simp
        have "loss_post lst d prior ((n, r) # nodes) s acc s' acc'"
          unfolding loss_post_def using old acc ev by simp
        then show ?thesis unfolding a using step loop by simp
      next
        case ncond: False
        have L: "lost_refs lst (packets s) ?la ((n, r) # nodes) = lost_refs lst (packets s) ?la nodes"
          using ncond by (auto simp: lost_refs_def vis)
        have P: "pending_refs lst (packets s) ?la ((n, r) # nodes)
                   = r # pending_refs lst (packets s) ?la nodes"
          using cand ncond by (simp add: pending_refs_def vis)
        have S: "lost_sequence lst (packets s) ?la ((n, r) # nodes) = lost_sequence lst (packets s) ?la nodes"
          using ncond by (auto simp: lost_sequence_def vis)
        have nz: "u64_add (m_send_time ?p) d \<noteq> 0"
          using Cons.prems(4) unfolding a vis by simp
        show ?thesis
        proof (cases "m_loss_time s = 0")
          case True
          let ?s1 = "s\<lparr>m_loss_time := u64_add (m_send_time ?p) d\<rparr>"
          have step: "detectLost_step lst d prior r (s, acc) = Some ((?s1, acc), True)"
            using le cand ncond True
            by (auto simp: detectLost_step_def Let_def loss_condition_def)
          have "\<exists>s' acc'. detectLost_loop lst d prior nodes (?s1, acc) = Some (s', acc')
             \<and> loss_post lst d prior nodes ?s1 acc s' acc'"
            using Cons.prems valid unfolding a L by (intro Cons.IH) (auto simp: vis)
          then show ?thesis
            unfolding a using step nz True
            by (auto simp: loss_post_def L S expected_loss_time_def P)
        next
          case False
          have step: "detectLost_step lst d prior r (s, acc) = Some ((s, acc), True)"
            using le cand ncond False
            by (auto simp: detectLost_step_def Let_def loss_condition_def)
          have "\<exists>s' acc'. detectLost_loop lst d prior nodes (s, acc) = Some (s', acc')
             \<and> loss_post lst d prior nodes s acc s' acc'"
            using Cons.prems valid unfolding a L by (intro Cons.IH) (auto simp: vis)
          then show ?thesis
            unfolding a using step False
            by (auto simp: loss_post_def L S)
        qed
      qed
    qed
  qed
qed

text \<open>
  Claim C2, as stated: the earliest send time still within the delay becomes the new
  \<open>loss_time\<close>. With one tracked packet sent at time 1000, an RTT of 8 (loss delay 9) and
  \<open>now = 1005\<close>, the packet is not lost and \<open>loss_time\<close> becomes 1009, the send time plus
  the loss delay, not the send time 1000.
\<close>

theorem C2_loss_time_counterexample:
  "m_send_time (packets tracked_one ! 0) = 1000
   \<and> map_option (\<lambda>(s', lost_packets). (m_loss_time s', lost_packets,
                     m_declared_lost (packets s' ! 0)))
        (detectLostPackets const_rtt_ops tracked_one 1005) = Some (1009, [], False)"
  using const_rtt_delay
  by (simp add: detectLostPackets_def Let_def detectLost_step_def tracked_one_eval
      u64_sub_def u64_add_def packetThreshold_def)

text \<open>
  Claim C2, amended: when nine eighths of \<open>max(latest_rtt, smoothed_rtt)\<close> are at least
  1 millisecond (times are in microseconds), \<open>detectLostPackets(now)\<close> uses the loss delay
  \<open>d = max(latest_rtt, smoothed_rtt) * 9/8\<close>, computed in single precision and rounded up to an
  integer: exactly \<open>\<lceil>9 * rtt / 8\<rceil>\<close> for an RTT below \<open>2^20\<close>, and within the two roundings of
  single precision in general. It walks the history in list order up to the first packet with
  \<open>pn > largest_acked\<close> and declares lost exactly the visited packets, not already lost or
  skipped, with \<open>send_time < now - d\<close> or \<open>pn + 3 \<le> largest_acked\<close>. Each of them is flagged
  and taken out of the bytes in flight, and, in the order of the walk, \<open>onLost\<close> is called on
  each of its frames, which queues the frame for retransmission, followed by \<open>onPacketLost\<close>
  of the congestion controller unless that is BBR; with BBR the lost packets are returned in
  that order. The new \<open>loss_time\<close> is \<open>send_time + d\<close> of the first visited packet that is
  neither lost nor skipped, and 0 when there is none. (For RTTs below \<open>2^60\<close>, valid packet
  references, a counter of bytes in flight that agrees with the packets, frames present on
  every outstanding packet and no overflow of \<open>send_time + d\<close>.)
\<close>

theorem C2_detectLostPackets:
  fixes ops :: "'r RTTOps" and s :: "'r SentPacketHandler"
  assumes floor: "8000 \<le> 9 * handler_max_rtt ops s"
    and rtt: "handler_max_rtt ops s < 2 ^ 60"
    and valid: "\<forall>(n, r) \<in> set (m_packet_list (m_history s)). r < length (packets s)"
    and inv: "m_bytes_inflight s = accounted_inflight (packets s)"
    and fr: "\<forall>(n, r) \<in> set (m_packet_list (m_history s)).
               \<not> m_declared_lost (packets s ! r) \<and> \<not> m_skipped (packets s ! r)
               \<longrightarrow> m_frames (packets s ! r) \<noteq> []"
    and nowrap: "\<forall>(n, r) \<in> set (m_packet_list (m_history s)).
               m_send_time (packets s ! r) + loss_delay_ceil (handler_max_rtt ops s) < 2 ^ 64"
  shows "\<exists>d s' lost_packets.
           detectLostPackets ops s now = Some (s', lost_packets)
         \<and> d = loss_delay_ceil (handler_max_rtt ops s)
         \<and> (2 ^ 24 - 1) ^ 2 * (9 * handler_max_rtt ops s) \<le> 2 ^ 48 * (8 * d)
         \<and> 2 ^ 48 * (8 * d) < (2 ^ 24 + 1) ^ 2 * (9 * handler_max_rtt ops s) + 2 ^ 48 * 8
         \<and> (handler_max_rtt ops s < 2 ^ 20 \<longrightarrow> d = (9 * handler_max_rtt ops s + 7) div 8)
         \<and> (\<forall>r < length (packets s).
               packets s' ! r =
                 (if r \<in> lost_refs (u64_sub now d) (packets s) (m_largest_acked s)
                          (m_packet_list (m_history s))
                  then mark_lost (packets s ! r) else packets s ! r))
         \<and> m_loss_time s' =
               expected_loss_time (u64_sub now d) d (packets s) (m_largest_acked s)
                 (m_packet_list (m_history s))
         \<and> set (lost_sequence (u64_sub now d) (packets s) (m_largest_acked s)
                   (m_packet_list (m_history s)))
             = lost_refs (u64_sub now d) (packets s) (m_largest_acked s) (m_packet_list (m_history s))
         \<and> lost_packets =
               (if m_is_bbr s
                then lost_sequence (u64_sub now d) (packets s) (m_largest_acked s)
                       (m_packet_list (m_history s))
                else [])
         \<and> events s' = events s @
               concat (map (\<lambda>r. loss_events (m_is_bbr s) (m_bytes_inflight s) (packets s ! r))
                         (lost_sequence (u64_sub now d) (packets s) (m_largest_acked s)
                            (m_packet_list (m_history s))))
         \<and> m_bytes_inflight s' = accounted_inflight (packets s')"
proof -
  define d where "d = loss_delay_ceil (handler_max_rtt ops s)"
  define lst where "lst = u64_sub now d"
  define nodes where "nodes = m_packet_list (m_history s)"
  let ?s0 = "s\<lparr>m_loss_time := 0\<rparr>"
  have dpos: "0 < d" unfolding d_def by (rule loss_delay_ceil_bounds(1)[OF rtt])
  have rel: "(2 ^ 24 - 1) ^ 2 * (9 * handler_max_rtt ops s) \<le> 2 ^ 48 * (8 * d)"
    "2 ^ 48 * (8 * d) < (2 ^ 24 + 1) ^ 2 * (9 * handler_max_rtt ops s) + 2 ^ 48 * 8"
    using loss_delay_ceil_rel[OF floor rtt] by (simp_all add: d_def)
  have exact: "handler_max_rtt ops s < 2 ^ 20 \<longrightarrow> d = (9 * handler_max_rtt ops s + 7) div 8"
  proof
    assume "handler_max_rtt ops s < 2 ^ 20"
    from loss_delay_ceil_exact[OF this] floor show "d = (9 * handler_max_rtt ops s + 7) div 8"
      by (simp add: d_def max_def)
  qed
  have a1: "\<forall>(n, r) \<in> set nodes. r < length (packets ?s0)"
    using valid by (simp add: nodes_def)
  have a2: "m_bytes_inflight ?s0 = accounted_inflight (packets ?s0)" using inv by simp
  have vis: "\<And>r. r \<in> set (loss_visited (packets s) (m_largest_acked s) nodes)
               \<Longrightarrow> r \<in> snd ` set nodes"
    unfolding loss_visited_def by (auto dest: set_takeWhileD)
  have a3: "\<forall>r \<in> lost_refs lst (packets ?s0) (m_largest_acked ?s0) nodes.
              m_frames (packets ?s0 ! r) \<noteq> []"
    using fr vis unfolding lost_refs_def nodes_def by fastforce
  have a4: "\<forall>r \<in> set (loss_visited (packets ?s0) (m_largest_acked ?s0) nodes).
              u64_add (m_send_time (packets ?s0 ! r)) d \<noteq> 0"
  proof
    fix r assume "r \<in> set (loss_visited (packets ?s0) (m_largest_acked ?s0) nodes)"
    then have "r \<in> snd ` set nodes" using vis by simp
    with nowrap have "m_send_time (packets s ! r) + d < 2 ^ 64"
      unfolding nodes_def d_def by auto
    then show "u64_add (m_send_time (packets ?s0 ! r)) d \<noteq> 0"
      using dpos by (simp add: u64_add_def)
  qed
  from detectLost_loop_spec[OF a1 a2 a3 a4, of "m_bytes_inflight ?s0" "[]"]
  obtain s' acc' where loop: "detectLost_loop lst d (m_bytes_inflight ?s0) nodes (?s0, []) = Some (s', acc')"
    and post: "loss_post lst d (m_bytes_inflight ?s0) nodes ?s0 [] s' acc'" by blast
  have run: "detectLostPackets ops s now = Some (s', acc')"
    using loop
    by (simp add: detectLostPackets_def Let_def d_def lst_def nodes_def handler_max_rtt_def)
  have seq: "set (lost_sequence lst (packets s) (m_largest_acked s) nodes)
               = lost_refs lst (packets s) (m_largest_acked s) nodes"
    by (rule set_lost_sequence)
  have p: "\<forall>r < length (packets s).
               packets s' ! r =
                 (if r \<in> lost_refs lst (packets s) (m_largest_acked s) nodes
                  then mark_lost (packets s ! r) else packets s ! r)"
    "m_loss_time s' = expected_loss_time lst d (packets s) (m_largest_acked s) nodes"
    "acc' = (if m_is_bbr s then lost_sequence lst (packets s) (m_largest_acked s) nodes else [])"
    "events s' = events s @
               concat (map (\<lambda>r. loss_events (m_is_bbr s) (m_bytes_inflight s) (packets s ! r))
                         (lost_sequence lst (packets s) (m_largest_acked s) nodes))"
    "m_bytes_inflight s' = accounted_inflight (packets s')"
    using post unfolding loss_post_def by simp_all
  show ?thesis
    using run rel exact seq p unfolding lst_def nodes_def d_def
    by (intro exI[of _ "loss_delay_ceil (handler_max_rtt ops s)"] exI[of _ s'] exI[of _ acc'] conjI)
       (rule refl | assumption)+
qed

lemma slow_rtt_delay: "loss_delay_ceil (handler_max_rtt slow_rtt_ops tracked_one) = 9000"
  by (simp add: handler_max_rtt_def slow_rtt_ops_def loss_delay_ceil_exact)

theorem C2_detectLostPackets_witness:
  "8000 \<le> 9 * handler_max_rtt slow_rtt_ops tracked_one
   \<and> handler_max_rtt slow_rtt_ops tracked_one < 2 ^ 60
   \<and> m_bytes_inflight tracked_one = accounted_inflight (packets tracked_one)
   \<and> m_frames (packets tracked_one ! 0) \<noteq> []
   \<and> (\<exists>s'. detectLostPackets slow_rtt_ops tracked_one 20000 = Some (s', [0])
         \<and> packets s' ! 0 = mark_lost (packets tracked_one ! 0)
         \<and> m_loss_time s' = 0
         \<and> events s' = [FrameOnLost 10]
         \<and> m_bytes_inflight s' = accounted_inflight (packets s'))"
proof -
  have m: "handler_max_rtt slow_rtt_ops tracked_one = 8000"
    by (simp add: handler_max_rtt_def slow_rtt_ops_def)
  have h0: "8000 \<le> 9 * handler_max_rtt slow_rtt_ops tracked_one" by (simp add: m)
  have h1: "handler_max_rtt slow_rtt_ops tracked_one < 2 ^ 60" by (simp add: m)
  have h2: "\<forall>(n, r) \<in> set (m_packet_list (m_history tracked_one)). r < length (packets tracked_one)"
    by (simp add: tracked_one_eval)
  have h3: "m_bytes_inflight tracked_one = accounted_inflight (packets tracked_one)"
    by (simp add: tracked_one_eval accounted_inflight_def)
  have h4: "\<forall>(n, r) \<in> set (m_packet_list (m_history tracked_one)).
               \<not> m_declared_lost (packets tracked_one ! r) \<and> \<not> m_skipped (packets tracked_one ! r)
               \<longrightarrow> m_frames (packets tracked_one ! r) \<noteq> []"
    by (simp add: tracked_one_eval)
  have h5: "\<forall>(n, r) \<in> set (m_packet_list (m_history tracked_one)).
               m_send_time (packets tracked_one ! r)
                 + loss_delay_ceil (handler_max_rtt slow_rtt_ops tracked_one) < 2 ^ 64"
    unfolding slow_rtt_delay by (simp add: tracked_one_eval)
  have L: "lost_refs (u64_sub 20000 9000) (packets tracked_one) (m_largest_acked tracked_one)
        (m_packet_list (m_history tracked_one)) = {0}"
    by (auto simp: lost_refs_def loss_visited_def loss_condition_def tracked_one_eval u64_sub_def)
  have S: "lost_sequence (u64_sub 20000 9000) (packets tracked_one) (m_largest_acked tracked_one)
        (m_packet_list (m_history tracked_one)) = [0]"
    by (simp add: lost_sequence_def loss_visited_def loss_condition_def tracked_one_eval u64_sub_def)
  have E: "expected_loss_time (u64_sub 20000 9000) 9000 (packets tracked_one) (m_largest_acked tracked_one)
        (m_packet_list (m_history tracked_one)) = 0"
    by (simp add: expected_loss_time_def pending_refs_def loss_visited_def loss_condition_def
        tracked_one_eval u64_sub_def)
  have B: "m_is_bbr tracked_one" "length (packets tracked_one) = 1" "m_frames (packets tracked_one ! 0) \<noteq> []"
    "events tracked_one = []"
    "loss_events True (m_bytes_inflight tracked_one) (packets tracked_one ! 0) = [FrameOnLost 10]"
    by (simp_all add: tracked_one_eval loss_events_def)
  from C2_detectLostPackets[OF h0 h1 h2 h3 h4 h5, of 20000]
  obtain d s' lost_packets where r: "detectLostPackets slow_rtt_ops tracked_one 20000 = Some (s', lost_packets)"
    "d = loss_delay_ceil (handler_max_rtt slow_rtt_ops tracked_one)"
    "\<forall>r < length (packets tracked_one). packets s' ! r =
        (if r \<in> lost_refs (u64_sub 20000 d) (packets tracked_one) (m_largest_acked tracked_one)
                   (m_packet_list (m_history tracked_one))
         then mark_lost (packets tracked_one ! r) else packets tracked_one ! r)"
    "m_loss_time s' = expected_loss_time (u64_sub 20000 d) d (packets tracked_one)
        (m_largest_acked tracked_one) (m_packet_list (m_history tracked_one))"
    "lost_packets = (if m_is_bbr tracked_one
        then lost_sequence (u64_sub 20000 d) (packets tracked_one) (m_largest_acked tracked_one)
               (m_packet_list (m_history tracked_one)) else [])"
    "events s' = events tracked_one @
        concat (map (\<lambda>r. loss_events (m_is_bbr tracked_one) (m_bytes_inflight tracked_one)
                            (packets tracked_one ! r))
                  (lost_sequence (u64_sub 20000 d) (packets tracked_one) (m_largest_acked tracked_one)
                     (m_packet_list (m_history tracked_one))))"
    "m_bytes_inflight s' = accounted_inflight (packets s')"
    by blast
  from r(2) have d: "d = 9000" by (simp add: slow_rtt_delay)
  from r(3) B(2) have "packets s' ! 0 = mark_lost (packets tracked_one ! 0)"
    unfolding d L by simp
  moreover from r(4) have "m_loss_time s' = 0" unfolding d E .
  moreover from r(5) B(1) have "lost_packets = [0]" unfolding d S by simp
  moreover from r(6) B(1,4,5) have "events s' = [FrameOnLost 10]" unfolding d S by simp
  ultimately have "\<exists>s'. detectLostPackets slow_rtt_ops tracked_one 20000 = Some (s', [0])
         \<and> packets s' ! 0 = mark_lost (packets tracked_one ! 0)
         \<and> m_loss_time s' = 0
         \<and> events s' = [FrameOnLost 10]
         \<and> m_bytes_inflight s' = accounted_inflight (packets s')"
    using r(1,7) by (intro exI[of _ s']) simp
  with h0 h1 h3 B(3) show ?thesis by (intro conjI)
qed

section \<open>Session\<close>

subsection \<open>A received CONNECTION\_CLOSE frame\<close>

text \<open>
  Claim C1: handling a received CONNECTION\_CLOSE frame should close the session (alive flag
  false). \<open>handleFrame\<close> returns 0 and leaves the session as it was: the calls of
  \<open>closeRemote\<close> in that case are commented out, so the session stays alive, whereas
  \<open>closeRemote\<close> itself clears the flag.
\<close>

theorem C1_handleFrame_connection_close:
  "handleFrame ops (new_QuicSession c) close_bye now = Some (0, new_QuicSession c)
   \<and> m_is_alive (new_QuicSession c)
   \<and> \<not> m_is_alive (closeRemote (new_QuicSession c))"
  by (simp add: handleFrame_def close_bye_def new_QuicSession_def closeRemote_def closeSession_def)

subsection \<open>The order of the frames in a packet\<close>

lemma visit_simps [simp]:
  "visit_frames [] = []" "visit_requeued [] = []" "visit_removed [] = {}" "visit_queued [] = []"
  "visit_frames ((sid, None, m, qd) # vs) = visit_frames vs"
  "visit_frames ((sid, Some f, m, qd) # vs) = f # visit_frames vs"
  "visit_requeued ((sid, fr, True, qd) # vs) = sid # visit_requeued vs"
  "visit_requeued ((sid, fr, False, qd) # vs) = visit_requeued vs"
  "visit_removed ((sid, fr, True, qd) # vs) = visit_removed vs"
  "visit_removed ((sid, fr, False, qd) # vs) = insert sid (visit_removed vs)"
  "visit_queued ((sid, fr, m, qd) # vs) = qd @ visit_queued vs"
  by (simp_all add: visit_frames_def visit_requeued_def visit_removed_def visit_queued_def
      List.map_filter_simps)

lemma sizes_simps [simp]: "sizes [] = 0" "sizes (f # fs) = frame_size f + sizes fs"
  "sizes (xs @ ys) = sizes xs + sizes ys"
  by (simp_all add: sizes_def)

lemma u64_add_mod: "u64_add (a mod 2 ^ 64) b = (a + b) mod 2 ^ 64"
  by (simp add: u64_add_def mod_add_left_eq)

lemma retransmission_loop_spec:
  "retransmission_loop m q p = (p', q') \<Longrightarrow>
     \<exists>taken. q = taken @ q' \<and> payload_frames p' = payload_frames p @ taken
        \<and> payload_ack p' = payload_ack p
        \<and> payload_length p' mod 2 ^ 64 = (payload_length p + sizes taken) mod 2 ^ 64"
proof (induction q arbitrary: p)
  case Nil
  then show ?case by simp
next
  case (Cons f rest)
  show ?case
  proof (cases "u64_sub m (payload_length p) < 128 \<or> frame_size f > u64_sub m (payload_length p)")
    case True
    with Cons.prems have "p' = p" "q' = f # rest"
      by (auto simp: Let_def getAppDataFrame_def split: if_splits)
    then show ?thesis by simp
  next
    case False
    let ?p1 = "p\<lparr>payload_frames := payload_frames p @ [f],
                 payload_length := u64_add (payload_length p) (frame_size f)\<rparr>"
    from False Cons.prems have "retransmission_loop m rest ?p1 = (p', q')"
      by (auto simp: Let_def getAppDataFrame_def split: if_splits)
    from Cons.IH[OF this] obtain taken where t: "rest = taken @ q'"
      "payload_frames p' = payload_frames ?p1 @ taken" "payload_ack p' = payload_ack ?p1"
      "payload_length p' mod 2 ^ 64 = (payload_length ?p1 + sizes taken) mod 2 ^ 64" by blast
    have "(payload_length ?p1 + sizes taken) mod 2 ^ 64 = (payload_length p + sizes (f # taken)) mod 2 ^ 64"
      by (simp add: u64_add_def mod_add_left_eq add.assoc)
    with t show ?thesis by (intro exI[of _ "f # taken"]) simp
  qed
qed

lemma appendControlFrames_loop_spec:
  "appendControlFrames_loop m r frames len = (r', frames', len') \<Longrightarrow>
     \<exists>taken. r = taken @ r' \<and> frames' = frames @ taken
        \<and> len' mod 2 ^ 64 = (len + sizes taken) mod 2 ^ 64"
proof (induction r arbitrary: frames len)
  case Nil
  then show ?case by simp
next
  case (Cons f rest)
  show ?case
  proof (cases "u64_add len (frame_size f) > m")
    case True
    with Cons.prems show ?thesis by simp
  next
    case False
    with Cons.prems have "appendControlFrames_loop m rest (frames @ [f]) (u64_add len (frame_size f)) = (r', frames', len')"
      by simp
    from Cons.IH[OF this] obtain taken where t: "rest = taken @ r'" "frames' = (frames @ [f]) @ taken"
      "len' mod 2 ^ 64 = (u64_add len (frame_size f) + sizes taken) mod 2 ^ 64" by blast
    have "(u64_add len (frame_size f) + sizes taken) mod 2 ^ 64 = (len + sizes (f # taken)) mod 2 ^ 64"
      by (simp add: u64_add_def mod_add_left_eq add.assoc)
    with t show ?thesis by (intro exI[of _ "f # taken"]) simp
  qed
qed

lemma queued_frames_fields [simp]:
  "m_control_frames (foldl queueControlFrame s qd) = m_control_frames s @ qd"
  "m_stream_queue (foldl queueControlFrame s qd) = m_stream_queue s"
  "m_active_streams (foldl queueControlFrame s qd) = m_active_streams s"
  "m_retrans_queue (foldl queueControlFrame s qd) = m_retrans_queue s"
  "m_is_alive (foldl queueControlFrame s qd) = m_is_alive s"
  "collab (foldl queueControlFrame s qd) = collab s"
  by (induction qd arbitrary: s) (simp_all add: queueControlFrame_def)

lemma popStreamFrames_loop_spec:
  "popStreamFrames_loop ops q s frames pl rs = Some (s', frames', pl') \<Longrightarrow>
     frames' = frames @ visit_frames (stream_visits ops q (collab s) pl rs)
     \<and> m_stream_queue s' = m_stream_queue s @ visit_requeued (stream_visits ops q (collab s) pl rs)
     \<and> m_active_streams s' = m_active_streams s - visit_removed (stream_visits ops q (collab s) pl rs)
     \<and> m_control_frames s' = m_control_frames s @ visit_queued (stream_visits ops q (collab s) pl rs)
     \<and> m_retrans_queue s' = m_retrans_queue s \<and> m_is_alive s' = m_is_alive s"
proof (induction q arbitrary: s frames pl rs)
  case Nil
  then show ?case by simp
next
  case (Cons sid q)
  show ?case
  proof (cases "rs \<le> 0")
    case True
    with Cons.prems show ?thesis by simp
  next
    case pos: False
    from pos Cons.prems obtain found c1 where
      g: "streams_getOrOpenSendStream ops sid (collab s) = Some (found, c1)"
      by (cases "streams_getOrOpenSendStream ops sid (collab s)") auto
    show ?thesis
    proof (cases found)
      case False
      with pos g Cons.prems have
        "popStreamFrames_loop ops q (s\<lparr>m_active_streams := m_active_streams s - {sid}, collab := c1\<rparr>)
           frames pl rs = Some (s', frames', pl')" by simp
      from Cons.IH[OF this] False pos g show ?thesis by auto
    next
      case True
      from True pos g Cons.prems obtain frame has_more qd c2 where
        p: "stream_popStreamFrame ops sid (nat rs) c1 = Some ((frame, has_more), qd, c2)"
        by (cases "stream_popStreamFrame ops sid (nat rs) c1") auto
      define s1 where "s1 = foldl queueControlFrame (s\<lparr>collab := c2\<rparr>) qd"
      define s2 where "s2 = (if has_more then s1\<lparr>m_stream_queue := m_stream_queue s1 @ [sid]\<rparr>
                               else s1\<lparr>m_active_streams := m_active_streams s1 - {sid}\<rparr>)"
      have f2: "collab s2 = c2" "m_control_frames s2 = m_control_frames s @ qd"
        "m_retrans_queue s2 = m_retrans_queue s" "m_is_alive s2 = m_is_alive s"
        "m_stream_queue s2 = m_stream_queue s @ (if has_more then [sid] else [])"
        "m_active_streams s2 = m_active_streams s - (if has_more then {} else {sid})"
        by (simp_all add: s2_def s1_def)
      show ?thesis
      proof (cases frame)
        case None
        with True pos g p Cons.prems have "popStreamFrames_loop ops q s2 frames pl rs = Some (s', frames', pl')"
          by (cases has_more) (simp_all add: s2_def s1_def Let_def)
        from Cons.IH[OF this] None True pos g p f2 show ?thesis
          by (cases has_more) auto
      next
        case (Some f)
        with True pos g p Cons.prems have
          "popStreamFrames_loop ops q s2 (frames @ [f]) (to_int32 (pl + int (frame_size f)))
             (to_int32 (rs - to_int32 (pl + int (frame_size f)))) = Some (s', frames', pl')"
          by (cases has_more) (simp_all add: s2_def s1_def Let_def)
        from Cons.IH[OF this] Some True pos g p f2 show ?thesis
          by (cases has_more) (auto simp: Let_def)
      qed
    qed
  qed
qed

lemma u64_sub_mod: "u64_sub a (b mod 2 ^ 64) = u64_sub a b"
  by (simp add: u64_sub_def)

lemma u64_sub_cong: "b mod 2 ^ 64 = b' mod 2 ^ 64 \<Longrightarrow> u64_sub a b = u64_sub a b'"
  by (simp add: u64_sub_def)

lemma u64_add_cong:
  "a mod 2 ^ 64 = a' mod 2 ^ 64 \<Longrightarrow> b mod 2 ^ 64 = b' mod 2 ^ 64 \<Longrightarrow> u64_add a b mod 2 ^ 64 = (a' + b') mod 2 ^ 64"
  unfolding u64_add_def by (metis mod_add_eq mod_mod_trivial)

lemma appendControlFrames_spec:
  "appendControlFrames s frames m = (s', frames', len) \<Longrightarrow>
     \<exists>control. rev (m_control_frames s) = control @ rev (m_control_frames s')
        \<and> frames' = frames @ control \<and> len mod 2 ^ 64 = sizes control mod 2 ^ 64
        \<and> m_retrans_queue s' = m_retrans_queue s \<and> m_stream_queue s' = m_stream_queue s
        \<and> m_active_streams s' = m_active_streams s \<and> collab s' = collab s"
proof (cases "m_control_frames s = []")
  case True
  assume "appendControlFrames s frames m = (s', frames', len)"
  with True show ?thesis by (simp add: appendControlFrames_def)
next
  case False
  assume a: "appendControlFrames s frames m = (s', frames', len)"
  obtain r fr l where l: "appendControlFrames_loop m (rev (m_control_frames s)) frames 0 = (r, fr, l)"
    by (cases "appendControlFrames_loop m (rev (m_control_frames s)) frames 0") auto
  from appendControlFrames_loop_spec[OF l] obtain taken where
    t: "rev (m_control_frames s) = taken @ r" "fr = frames @ taken" "l mod 2 ^ 64 = (0 + sizes taken) mod 2 ^ 64"
    by blast
  from a False l have "s' = s\<lparr>m_control_frames := rev r\<rparr>" "frames' = fr" "len = l"
    by (simp_all add: appendControlFrames_def)
  with t show ?thesis by (intro exI[of _ taken]) simp
qed

lemmas session_eval = composeNextPacket_def appendControlFrames_def popStreamFrames_def
  queueControlFrame_def new_QuicSession_def idle_ops_def control_frame_def u64_add_def u64_sub_def
  to_int32_def Let_def

text \<open>
  Claim C6, as stated: the control frames are appended in first-in-first-out order of
  \<open>queueControlFrame\<close>. With two control frames queued, 1 then 2, the payload holds them in
  the order 2, 1: \<open>appendControlFrames\<close> takes them from the back of the list.
\<close>

theorem C6_control_frames_counterexample:
  "m_control_frames (queueControlFrame (queueControlFrame (new_QuicSession ()) (control_frame 1)) (control_frame 2))
     = [control_frame 1, control_frame 2]
   \<and> map_option (\<lambda>(payload, s'). payload_frames payload)
        (composeNextPacket idle_ops
           (queueControlFrame (queueControlFrame (new_QuicSession ()) (control_frame 1)) (control_frame 2))
           1200 True) = Some [control_frame 2, control_frame 1]
   \<and> control_frame 1 \<noteq> control_frame 2"
  by (simp add: session_eval)

text \<open>
  Claim C6, amended: when \<open>composeNextPacket\<close> returns, the ACK frame (when allowed and there
  is one) is in the payload's \<open>ack\<close> slot, which is written first; the frame list is a prefix
  of the retransmission queue, then control frames in last-in-first-out order of
  \<open>queueControlFrame\<close> (a prefix of the reversed control list), then the frames of the streams
  visited in the order of the active-stream queue, with the budget that the frames before
  leave. The control frames that stay behind (\<open>kept\<close>) are followed, in the session's control
  list, by the control frames that the visited streams queued during the call, in visiting
  order; these are not in the payload. Each visited stream that has more data is appended to
  the tail of the stream queue, in visiting order; each visited stream that is drained or not
  found is removed from the active set.
\<close>

theorem C6_composeNextPacket:
  assumes "composeNextPacket ops s max_payload_size ack_allow = Some (payload, s')"
  shows "\<exists>ack c1 retrans control kept.
      (ack, c1) = (if ack_allow then handler_getAckFrame ops False (collab s) else (None, collab s))
    \<and> payload_ack payload = ack
    \<and> m_retrans_queue s = retrans @ m_retrans_queue s'
    \<and> rev (m_control_frames s) = control @ rev kept
    \<and> (let vs = stream_visits ops (m_stream_queue s) c1 0
                   (to_int32 (int (u64_sub max_payload_size (sizes (ack_part ack @ retrans @ control)))))
        in payload_frames payload = retrans @ control @ visit_frames vs
         \<and> m_control_frames s' = kept @ visit_queued vs
         \<and> (\<exists>front. m_stream_queue s' = front @ visit_requeued vs)
         \<and> m_active_streams s' = m_active_streams s - visit_removed vs)"
proof -
  let ?p0 = "\<lparr>payload_frames = [], payload_ack = None, payload_length = 0\<rparr>"
  obtain ack c1 where ac: "(ack, c1) = (if ack_allow then handler_getAckFrame ops False (collab s) else (None, collab s))"
    by (metis surj_pair)
  define p1 where "p1 = (case ack of None \<Rightarrow> ?p0
                          | Some a \<Rightarrow> ?p0\<lparr>payload_ack := Some a, payload_length := u64_add 0 (frame_size a)\<rparr>)"
  define s1 where "s1 = s\<lparr>collab := c1\<rparr>"
  have p1: "payload_frames p1 = []" "payload_ack p1 = ack"
    "payload_length p1 mod 2 ^ 64 = sizes (ack_part ack) mod 2 ^ 64"
    by (auto simp: p1_def ack_part_def u64_add_def split: option.splits)
  obtain p2 q where rl: "(p2, q) = (if m_retrans_queue s \<noteq> []
        then retransmission_loop max_payload_size (m_retrans_queue s1) p1 else (p1, m_retrans_queue s1))"
    by (metis surj_pair)
  define s2 where "s2 = (if m_retrans_queue s \<noteq> [] then s1\<lparr>m_retrans_queue := q\<rparr> else s1)"
  have s2: "m_retrans_queue s2 = q" "m_control_frames s2 = m_control_frames s"
    "m_stream_queue s2 = m_stream_queue s" "m_active_streams s2 = m_active_streams s" "collab s2 = c1"
    using rl by (auto simp: s2_def s1_def split: if_splits)
  have "\<exists>retrans. m_retrans_queue s = retrans @ q \<and> payload_frames p2 = retrans \<and> payload_ack p2 = ack
          \<and> payload_length p2 mod 2 ^ 64 = (sizes (ack_part ack) + sizes retrans) mod 2 ^ 64"
  proof (cases "m_retrans_queue s \<noteq> []")
    case True
    with rl have "retransmission_loop max_payload_size (m_retrans_queue s) p1 = (p2, q)"
      by (simp add: s1_def)
    from retransmission_loop_spec[OF this] obtain taken where
      "m_retrans_queue s = taken @ q" "payload_frames p2 = payload_frames p1 @ taken"
      "payload_ack p2 = payload_ack p1"
      "payload_length p2 mod 2 ^ 64 = (payload_length p1 + sizes taken) mod 2 ^ 64" by blast
    moreover have "(payload_length p1 + sizes taken) mod 2 ^ 64 = (sizes (ack_part ack) + sizes taken) mod 2 ^ 64"
      using p1(3) by (metis mod_add_left_eq)
    ultimately show ?thesis using p1 by (intro exI[of _ taken]) simp
  next
    case False
    with rl p1 show ?thesis by (simp add: s1_def)
  qed
  then obtain retrans where r: "m_retrans_queue s = retrans @ q" "payload_frames p2 = retrans"
    "payload_ack p2 = ack"
    "payload_length p2 mod 2 ^ 64 = (sizes (ack_part ack) + sizes retrans) mod 2 ^ 64" by blast
  obtain s3 frames3 control_len where
    cf: "appendControlFrames s2 (payload_frames p2) (u64_sub max_payload_size (payload_length p2))
           = (s3, frames3, control_len)"
    by (metis prod_cases3)
  from appendControlFrames_spec[OF cf] obtain control where
    c: "rev (m_control_frames s2) = control @ rev (m_control_frames s3)"
       "frames3 = payload_frames p2 @ control" "control_len mod 2 ^ 64 = sizes control mod 2 ^ 64"
       "m_retrans_queue s3 = m_retrans_queue s2" "m_stream_queue s3 = m_stream_queue s2"
       "m_active_streams s3 = m_active_streams s2" "collab s3 = collab s2" by blast
  define p3 where "p3 = p2\<lparr>payload_frames := frames3,
                             payload_length := u64_add (payload_length p2) control_len\<rparr>"
  have len3: "payload_length p3 mod 2 ^ 64 = sizes (ack_part ack @ retrans @ control) mod 2 ^ 64"
    using u64_add_cong[OF r(4) c(3)] by (simp add: p3_def add.assoc)
  have unf: "composeNextPacket ops s max_payload_size ack_allow =
               (case popStreamFrames ops s3 (payload_frames p3)
                       (u64_sub max_payload_size (payload_length p3)) of
                  None \<Rightarrow> None
                | Some (s4, frames4, stream_len) \<Rightarrow>
                    Some (p3\<lparr>payload_frames := frames4,
                             payload_length := u64_add (payload_length p3) (nat (stream_len mod 2 ^ 64))\<rparr>, s4))"
  proof (cases ack_allow)
    case True
    with ac have g: "handler_getAckFrame ops False (collab s) = (ack, c1)" by simp
    show ?thesis
      using g True rl[symmetric] cf
      by (cases ack; cases "m_retrans_queue s = []")
         (auto simp: composeNextPacket_def Let_def p1_def s1_def s2_def p3_def split: option.splits)
  next
    case False
    with ac have g: "ack = None" "c1 = collab s" by simp_all
    have "s1 = s" by (simp add: s1_def g)
    with False g rl[symmetric] cf show ?thesis
      by (cases "m_retrans_queue s = []")
         (auto simp: composeNextPacket_def Let_def p1_def s2_def p3_def split: option.splits)
  qed
  with assms obtain frames4 stream_len where
    ps: "popStreamFrames ops s3 (payload_frames p3) (u64_sub max_payload_size (payload_length p3))
           = Some (s', frames4, stream_len)"
    and pay: "payload = p3\<lparr>payload_frames := frames4,
                 payload_length := u64_add (payload_length p3) (nat (stream_len mod 2 ^ 64))\<rparr>"
    by (auto split: option.splits)
  define vs where "vs = stream_visits ops (m_stream_queue s) c1 0
                   (to_int32 (int (u64_sub max_payload_size (sizes (ack_part ack @ retrans @ control)))))"
  have budget: "u64_sub max_payload_size (payload_length p3)
          = u64_sub max_payload_size (sizes (ack_part ack @ retrans @ control))"
    by (rule u64_sub_cong[OF len3])
  from ps have "popStreamFrames_loop ops (m_stream_queue s3) (s3\<lparr>m_stream_queue := []\<rparr>) (payload_frames p3) 0
                  (to_int32 (int (u64_sub max_payload_size (payload_length p3)))) = Some (s', frames4, stream_len)"
    by (simp add: popStreamFrames_def)
  from popStreamFrames_loop_spec[OF this] have
    v: "frames4 = payload_frames p3 @ visit_frames vs" "m_stream_queue s' = visit_requeued vs"
       "m_active_streams s' = m_active_streams s - visit_removed vs"
       "m_control_frames s' = m_control_frames s3 @ visit_queued vs"
       "m_retrans_queue s' = m_retrans_queue s3"
    using c(5,6,7) by (simp_all add: vs_def budget s2)
  have "payload_ack payload = ack" by (simp add: pay p3_def r)
  moreover have "m_retrans_queue s = retrans @ m_retrans_queue s'"
    by (simp add: v c s2 r)
  moreover have "rev (m_control_frames s) = control @ rev (m_control_frames s3)"
    using c(1) by (simp add: s2)
  moreover have "payload_frames payload = retrans @ control @ visit_frames vs"
    by (simp add: pay v p3_def c r)
  moreover have "\<exists>front. m_stream_queue s' = front @ visit_requeued vs"
    by (simp add: v)
  ultimately show ?thesis using ac v(3,4) unfolding vs_def Let_def by blast
qed

theorem C6_composeNextPacket_witness:
  "\<exists>payload s' control kept.
      composeNextPacket one_stream_ops blocked_session 1200 True = Some (payload, s')
    \<and> rev (m_control_frames blocked_session) = control @ rev kept
    \<and> payload_frames payload = [control_frame 2, control_frame 1]
    \<and> m_control_frames s' = [blocked_frame_4]
    \<and> m_active_streams s' = {}"
proof -
  obtain payload s' where
    r: "composeNextPacket one_stream_ops blocked_session 1200 True = Some (payload, s')"
       "payload_frames payload = [control_frame 2, control_frame 1]"
       "m_control_frames s' = [blocked_frame_4]" "m_active_streams s' = {}"
    by (simp add: blocked_session_def one_stream_ops_def addActiveStream_def session_eval)
  from C6_composeNextPacket[OF r(1)] obtain control kept where
    "rev (m_control_frames blocked_session) = control @ rev kept" by blast
  with r show ?thesis by blast
qed

section \<open>Send stream: offsets of the frames popped\<close>

lemmas stream_eval = QuicSndStream_write_def write_iteration_def write_result_def
  canBufferStreamFrame_def readAvailable_def popStreamFrame_def
  popNewOrRetransmissitedStreamFrame_def popNewStreamFrame_def maybeGetRetransmission_def
  maybeSplitOffFrame_def maxDataLen_def var_size_def QuicStreamFrame_size_def
  queueRetransmission_def sender_event_def signalWrite_def
  set_data_def set_offset_def set_stream_id_def set_fin_flag_def new_QuicStreamFrame_def
  new_QuicSndStream_def fresh_stream_def spec_flow_ops_def first_frame_def offset_def
  u64_add_def u64_sub_def Let_def

lemma inv_events [simp]:
  "new_data_inv (sender_event e s) b = new_data_inv s b"
  "new_data_inv (signalWrite s) b = new_data_inv s b"
  by (simp_all add: new_data_inv_def sender_event_def signalWrite_def pending_def
      next_frame_at_write_offset_def split: option.splits)

lemma offset_events [simp]:
  "m_write_offset (sender_event e s) = m_write_offset s"
  "m_write_offset (signalWrite s) = m_write_offset s"
  by (simp_all add: sender_event_def signalWrite_def)

lemma write_iteration_inv:
  assumes "write_iteration s buffer_len now = (st, s')" "new_data_inv s b"
  shows "new_data_inv s' b \<and> m_write_offset s' = m_write_offset s"
  using assms
  by (auto simp: write_iteration_def new_data_inv_def pending_def next_frame_at_write_offset_def
      readAvailable_def set_data_def set_offset_def set_stream_id_def new_QuicStreamFrame_def
      sender_event_def Let_def
      split: option.splits if_splits)

lemma write_inv:
  assumes "QuicSndStream_write s d now = Some (st, s')" "new_data_inv s (length d + b)"
  shows "new_data_inv s' b \<and> m_write_offset s' = m_write_offset s"
proof -
  have weak: "new_data_inv s b" using assms(2) by (simp add: new_data_inv_def)
  show ?thesis
  proof (cases "m_finished_writing s \<or> m_canceled_write s \<or> m_shutdown s
                \<or> (m_deadline s \<noteq> 0 \<and> m_deadline s \<le> now) \<or> d = []")
    case True
    with assms(1) have "s' = s" by (auto simp: QuicSndStream_write_def split: if_splits)
    with weak show ?thesis by simp
  next
    case False
    with assms(1) have n: "m_data_for_writing s = None"
      and w: "write_iteration (s\<lparr>m_data_for_writing := Some d\<rparr>) (length d) now = (st, s')"
      by (auto simp: QuicSndStream_write_def split: if_splits)
    have "new_data_inv (s\<lparr>m_data_for_writing := Some d\<rparr>) b"
      using assms(2) n
      by (simp add: new_data_inv_def pending_def next_frame_at_write_offset_def readAvailable_def
          split: option.splits)
    from write_iteration_inv[OF w this] show ?thesis by simp
  qed
qed

lemma signalWrite_fields [simp]:
  "m_next_frame (signalWrite s) = m_next_frame s"
  "m_data_for_writing (signalWrite s) = m_data_for_writing s"
  "m_retransmission_queue (signalWrite s) = m_retransmission_queue s"
  "m_flow_controller (signalWrite s) = m_flow_controller s"
  "m_finished_writing (signalWrite s) = m_finished_writing s"
  "m_fin_sent (signalWrite s) = m_fin_sent s"
  by (simp_all add: signalWrite_def)

lemma set_fields [simp]:
  "sf_offset (set_data f d) = sf_offset f" "sf_has_offset_field (set_data f d) = sf_has_offset_field f"
  "sf_data (set_data f d) = d" "sf_has_fin (set_data f d) = sf_has_fin f"
  "sf_offset (set_offset f n) = n" "sf_has_offset_field (set_offset f n)"
  "sf_data (set_offset f n) = sf_data f" "sf_has_fin (set_offset f n) = sf_has_fin f"
  "sf_data (set_stream_id f i) = sf_data f" "sf_has_fin (set_stream_id f i) = sf_has_fin f"
  "sf_offset (set_fin_flag f) = sf_offset f" "sf_has_offset_field (set_fin_flag f) = sf_has_offset_field f"
  "sf_data (set_fin_flag f) = sf_data f"
  "sf_data new_QuicStreamFrame = Some []" "sf_has_fin new_QuicStreamFrame = False"
  by (simp_all add: set_data_def set_offset_def set_stream_id_def set_fin_flag_def new_QuicStreamFrame_def)

lemma get_data_for_writing_spec:
  assumes "get_data_for_writing s frame n = (s1, f1)"
  shows "m_next_frame s1 = m_next_frame s \<and> m_write_offset s1 = m_write_offset s
       \<and> m_retransmission_queue s1 = m_retransmission_queue s
       \<and> m_flow_controller s1 = m_flow_controller s
       \<and> m_finished_writing s1 = m_finished_writing s \<and> m_fin_sent s1 = m_fin_sent s
       \<and> sf_offset f1 = sf_offset frame \<and> sf_has_offset_field f1 = sf_has_offset_field frame
       \<and> sf_has_fin f1 = sf_has_fin frame
       \<and> readAvailable (m_data_for_writing s1) + readAvailable (sf_data f1)
            = readAvailable (m_data_for_writing s)
       \<and> (m_data_for_writing s \<noteq> None \<longrightarrow> sf_data f1 \<noteq> None)"
proof (cases "m_data_for_writing s")
  case None
  with assms show ?thesis by (auto simp: get_data_for_writing_def readAvailable_def)
next
  case (Some bytes)
  with assms show ?thesis
    by (cases "length bytes \<le> n"; cases "canBufferStreamFrame (s\<lparr>m_data_for_writing := Some (drop n bytes)\<rparr>)")
       (auto simp: get_data_for_writing_def readAvailable_def Let_def)
qed

lemma popNewStreamFrameWithoutBuffer_spec:
  assumes "popNewStreamFrameWithoutBuffer s frame max_bytes send_win = (b, s1, f1)"
  shows "m_next_frame s1 = m_next_frame s \<and> m_write_offset s1 = m_write_offset s
       \<and> m_retransmission_queue s1 = m_retransmission_queue s
       \<and> m_flow_controller s1 = m_flow_controller s
       \<and> m_finished_writing s1 = m_finished_writing s \<and> m_fin_sent s1 = m_fin_sent s
       \<and> sf_offset f1 = sf_offset frame \<and> sf_has_offset_field f1 = sf_has_offset_field frame
       \<and> sf_has_fin f1 = sf_has_fin frame
       \<and> readAvailable (m_data_for_writing s1) + readAvailable (sf_data f1)
            = readAvailable (m_data_for_writing s) + (if maxDataLen frame max_bytes = 0 then readAvailable (sf_data frame) else 0)
       \<and> (m_data_for_writing s \<noteq> None \<and> sf_data frame \<noteq> None \<longrightarrow> sf_data f1 \<noteq> None)"
proof (cases "maxDataLen frame max_bytes = 0")
  case True
  with assms show ?thesis by (simp add: popNewStreamFrameWithoutBuffer_def)
next
  case False
  obtain s' f' where g: "get_data_for_writing s frame (min (maxDataLen frame max_bytes) send_win) = (s', f')"
    by (metis surj_pair)
  with False assms have "s1 = s'" "f1 = f'" by (simp_all add: popNewStreamFrameWithoutBuffer_def Let_def)
  with get_data_for_writing_spec[OF g] False show ?thesis by simp
qed

lemma popNewStreamFrame_inv:
  assumes "popNewStreamFrame s max_bytes send_win = (fo, has_more, s1)"
    and "new_data_inv s b"
  shows "(case fo of None \<Rightarrow> pending s1 = pending s \<and> m_next_frame s1 = None
          | Some f \<Rightarrow> offset f = m_write_offset s
              \<and> pending s1 + readAvailable (sf_data f) = pending s
              \<and> (case m_next_frame s1 of None \<Rightarrow> True
                  | Some g \<Rightarrow> sf_has_offset_field g
                       \<and> sf_offset g = m_write_offset s + readAvailable (sf_data f)))
         \<and> m_write_offset s1 = m_write_offset s
         \<and> m_retransmission_queue s1 = m_retransmission_queue s
         \<and> m_flow_controller s1 = m_flow_controller s
         \<and> m_finished_writing s1 = m_finished_writing s \<and> m_fin_sent s1 = m_fin_sent s"
proof (cases "m_next_frame s")
  case None
  let ?frame = "set_offset (set_stream_id new_QuicStreamFrame (m_stream_id s)) (m_write_offset s)"
  obtain b' s' f' where w: "popNewStreamFrameWithoutBuffer s ?frame max_bytes send_win = (b', s', f')"
    by (metis prod_cases3)
  note sp = popNewStreamFrameWithoutBuffer_spec[OF w]
  have r: "s1 = s'" "fo = (if sf_data f' = None \<and> \<not> sf_has_fin f' then None else Some f')"
    using assms(1) None w by (auto simp: popNewStreamFrame_def Let_def split: if_splits)
  have p: "pending s' + readAvailable (sf_data f') = pending s"
    using sp None by (simp add: pending_def readAvailable_def)
  show ?thesis
  proof (cases "sf_data f' = None \<and> \<not> sf_has_fin f'")
    case True
    with r sp None p show ?thesis by (auto simp: readAvailable_def)
  next
    case False
    with r sp None p show ?thesis by (auto simp: offset_def)
  qed
next
  case (Some nf)
  have o: "sf_has_offset_field nf" "sf_offset nf = m_write_offset s"
    and bound: "m_write_offset s + pending s < 2 ^ 64"
    using assms(2) Some by (simp_all add: new_data_inv_def next_frame_at_write_offset_def)
  define m where "m = min send_win (maxDataLen nf max_bytes)"
  show ?thesis
  proof (cases "sf_data nf")
    case None
    with Some assms(1) have "s1 = signalWrite (s\<lparr>m_next_frame := None\<rparr>)" "fo = Some nf"
      by (simp_all add: popNewStreamFrame_def Let_def)
    with None Some o show ?thesis
      by (simp add: pending_def readAvailable_def offset_def)
  next
    case d: (Some ori)
    show ?thesis
    proof (cases "length ori > m")
      case True
      have u: "u64_add (m_write_offset s) m = m_write_offset s + m"
        using bound True d Some by (simp add: pending_def readAvailable_def u64_add_def)
      from True d Some assms(1) have
        "s1 = s\<lparr>m_next_frame := Some (set_data (set_offset (set_stream_id new_QuicStreamFrame (m_stream_id s))
                                                  (u64_add (m_write_offset s) m))
                                        (Some (drop m ori)))\<rparr>"
        "fo = Some (set_data nf (Some (take m ori)))"
        by (simp_all add: popNewStreamFrame_def Let_def m_def)
      with True d Some o u show ?thesis
        by (simp add: pending_def readAvailable_def offset_def)
    next
      case False
      with d Some assms(1) have "s1 = signalWrite (s\<lparr>m_next_frame := None\<rparr>)" "fo = Some nf"
        by (simp_all add: popNewStreamFrame_def Let_def m_def)
      with d Some o show ?thesis
        by (simp add: pending_def readAvailable_def offset_def)
    qed
  qed
qed

lemma inv_irrelevant_updates [simp]:
  "new_data_inv (s\<lparr>m_fin_sent := x\<rparr>) b = new_data_inv s b"
  "new_data_inv (s\<lparr>m_flow_controller := fc\<rparr>) b = new_data_inv s b"
  "new_data_inv (s\<lparr>m_finished_writing := y\<rparr>) b = new_data_inv s b"
  "new_data_inv (s\<lparr>m_shutdown := y\<rparr>) b = new_data_inv s b"
  "new_data_inv (s\<lparr>m_complete := y\<rparr>) b = new_data_inv s b"
  "new_data_inv (s\<lparr>m_num_outstanding_frames := k\<rparr>) b = new_data_inv s b"
  "new_data_inv (s\<lparr>m_sum_sent_packet := n1\<rparr>) b = new_data_inv s b"
  "new_data_inv (s\<lparr>m_sum_bytes_sent_packet := n2\<rparr>) b = new_data_inv s b"
  "new_data_inv (s\<lparr>m_canceled_write := y\<rparr>) b = new_data_inv s b"
  by (simp_all add: new_data_inv_def pending_def next_frame_at_write_offset_def split: option.splits)

lemma popNewOrRetransmissitedStreamFrame_inv:
  assumes "popNewOrRetransmissitedStreamFrame ops s n = Some (fo, has_more, s')"
    and "new_data_inv s b" and q: "m_retransmission_queue s = []"
  shows "new_data_inv s' b \<and> m_write_offset s \<le> m_write_offset s'
         \<and> (\<forall>f. fo = Some f \<longrightarrow> offset f = m_write_offset s)"
proof -
  consider (stopped) "m_canceled_write s \<or> m_shutdown s"
    | (idle) "\<not> (m_canceled_write s \<or> m_shutdown s)" "m_data_for_writing s = None \<and> m_next_frame s = None"
    | (blocked) "\<not> (m_canceled_write s \<or> m_shutdown s)" "\<not> (m_data_for_writing s = None \<and> m_next_frame s = None)"
        "sendWinSize ops (m_flow_controller s) = 0"
    | (data) "\<not> (m_canceled_write s \<or> m_shutdown s)" "\<not> (m_data_for_writing s = None \<and> m_next_frame s = None)"
        "sendWinSize ops (m_flow_controller s) \<noteq> 0"
    by blast
  then show ?thesis
  proof cases
    case stopped
    with assms show ?thesis by (simp add: popNewOrRetransmissitedStreamFrame_def)
  next
    case idle
    with assms q show ?thesis
      by (auto simp: popNewOrRetransmissitedStreamFrame_def offset_def split: if_splits)
  next
    case blocked
    obtain at fc1 where nb: "isNewlyBlocked ops (m_flow_controller s) = (at, fc1)" by (metis surj_pair)
    with blocked assms q show ?thesis
      by (auto simp: popNewOrRetransmissitedStreamFrame_def Let_def split: if_splits)
  next
    case data
    let ?w = "sendWinSize ops (m_flow_controller s)"
    obtain fr hm s1 where p: "popNewStreamFrame s n ?w = (fr, hm, s1)" by (metis prod_cases3)
    note sp = popNewStreamFrame_inv[OF p assms(2)]
    define k where "k = (case fr of None \<Rightarrow> 0 | Some f \<Rightarrow> readAvailable (sf_data f))"
    define s2 where "s2 = (if k \<noteq> 0
                               then s1\<lparr>m_write_offset := u64_add (m_write_offset s1) k,
                                       m_flow_controller := addBytesSent ops k (m_flow_controller s1)\<rparr>
                               else s1)"
    define fin where "fin \<longleftrightarrow> m_finished_writing s2 \<and> m_data_for_writing s2 = None
                             \<and> m_next_frame s2 = None \<and> \<not> m_fin_sent s2"
    have bound: "m_write_offset s + pending s + b < 2 ^ 64" using assms(2) by (simp add: new_data_inv_def)
    have kp: "pending s1 + k = pending s" using sp by (cases fr) (simp_all add: k_def)
    have u: "u64_add (m_write_offset s1) k = m_write_offset s + k"
      using sp bound kp by (simp add: u64_add_def)
    have wo2: "m_write_offset s2 = m_write_offset s + k" using u sp by (simp add: s2_def)
    have nf2: "m_next_frame s2 = m_next_frame s1" "m_data_for_writing s2 = m_data_for_writing s1"
      using sp by (simp_all add: s2_def)
    have pend2: "pending s2 = pending s1" using nf2 by (simp add: pending_def)
    have at2: "next_frame_at_write_offset s2"
      using sp wo2 nf2 by (cases fr) (auto simp: next_frame_at_write_offset_def k_def split: option.splits)
    have inv2: "new_data_inv s2 b"
      using at2 nf2 pend2 wo2 kp bound by (simp add: new_data_inv_def)
    have off: "\<forall>f. fr = Some f \<longrightarrow> offset f = m_write_offset s" using sp by auto
    have unf: "popNewOrRetransmissitedStreamFrame ops s n =
        (if fin then (case fr of None \<Rightarrow> None
               | Some f \<Rightarrow> Some (Some (set_fin_flag f), hm, s2\<lparr>m_fin_sent := True\<rparr>))
         else Some (fr, hm, s2))"
    proof -
      have c: "(m_canceled_write s \<or> m_shutdown s) = False" "(m_retransmission_queue s \<noteq> []) = False"
        "(m_data_for_writing s = None \<and> m_next_frame s = None) = False"
        "(sendWinSize ops (m_flow_controller s) = 0) = False"
        using data q by auto
      show ?thesis
        unfolding popNewOrRetransmissitedStreamFrame_def Let_def c if_False p prod.case fin_def s2_def k_def
        by (rule refl)
    qed
    show ?thesis
    proof (cases fin)
      case True
      with unf assms(1) obtain f where "fr = Some f" "fo = Some (set_fin_flag f)" "s' = s2\<lparr>m_fin_sent := True\<rparr>"
        by (cases fr) auto
      with inv2 wo2 off show ?thesis by (auto simp: offset_def split: if_splits)
    next
      case False
      with unf assms(1) have "fo = fr" "s' = s2" by auto
      with inv2 wo2 off show ?thesis by simp
    qed
  qed
qed

lemma retransmission_inv:
  assumes "popNewOrRetransmissitedStreamFrame ops s n = Some (fo, has_more, s')"
    and "new_data_inv s b" and "is_retransmission s"
  shows "new_data_inv s' b \<and> m_write_offset s' = m_write_offset s"
proof -
  from assms(1,3) obtain g h t1 where m: "maybeGetRetransmission s n = Some (g, h, t1)" "s' = t1"
    by (auto simp: popNewOrRetransmissitedStreamFrame_def is_retransmission_def split: option.splits)
  then have "m_next_frame s' = m_next_frame s \<and> m_data_for_writing s' = m_data_for_writing s
      \<and> m_write_offset s' = m_write_offset s"
    by (auto simp: maybeGetRetransmission_def split: list.splits option.splits)
  with assms(2) show ?thesis
    by (auto simp: new_data_inv_def pending_def next_frame_at_write_offset_def split: option.splits)
qed

lemma popStreamFrame_inv:
  assumes "popStreamFrame ops s n = Some (fo, has_more, s')" and "new_data_inv s b"
  shows "new_data_inv s' b \<and> m_write_offset s \<le> m_write_offset s'
         \<and> (\<forall>f. fo = Some f \<and> \<not> is_retransmission s \<longrightarrow> offset f = m_write_offset s)"
proof -
  obtain fr hm s1 where p: "popNewOrRetransmissitedStreamFrame ops s n = Some (fr, hm, s1)"
    using assms(1) by (auto simp: popStreamFrame_def split: option.splits)
  have sp: "new_data_inv s1 b \<and> m_write_offset s \<le> m_write_offset s1
         \<and> (\<forall>f. fr = Some f \<and> \<not> is_retransmission s \<longrightarrow> offset f = m_write_offset s)"
  proof (cases "is_retransmission s")
    case True
    with retransmission_inv[OF p assms(2)] show ?thesis by simp
  next
    case False
    show ?thesis
    proof (cases "m_canceled_write s \<or> m_shutdown s")
      case True
      with p assms(2) show ?thesis by (simp add: popNewOrRetransmissitedStreamFrame_def)
    next
      case live: False
      with False have "m_retransmission_queue s = []" by (simp add: is_retransmission_def)
      from popNewOrRetransmissitedStreamFrame_inv[OF p assms(2) this] show ?thesis by simp
    qed
  qed
  show ?thesis
  proof (cases fr)
    case None
    with p assms(1) have "fo = None" "s' = s1" by (simp_all add: popStreamFrame_def)
    with sp show ?thesis by simp
  next
    case (Some f)
    with p assms(1) have "fo = Some f"
      "s' = s1\<lparr>m_num_outstanding_frames := m_num_outstanding_frames s1 + 1,
                        m_sum_sent_packet := u64_add (m_sum_sent_packet s1) 1,
                        m_sum_bytes_sent_packet :=
                          u64_add (m_sum_bytes_sent_packet s1) (QuicStreamFrame_size f)\<rparr>"
      by (auto simp: popStreamFrame_def split: if_splits)
    with sp Some show ?thesis by simp
  qed
qed

lemma inv_weaken: "new_data_inv s (a + b) \<Longrightarrow> new_data_inv s b"
  by (simp add: new_data_inv_def)

lemma stream_step_inv:
  assumes "stream_step ops s op = Some (fo, s')" "new_data_inv s (written (op # rest))"
  shows "new_data_inv s' (written rest) \<and> m_write_offset s \<le> m_write_offset s'
         \<and> (\<forall>f. fo = Some f \<and> \<not> is_retransmission s \<longrightarrow> offset f = m_write_offset s)"
proof (cases op)
  case (OpWrite d now)
  with assms(1) obtain st where w: "QuicSndStream_write s d now = Some (st, s')" and "fo = None"
    by auto
  with write_inv[OF w] assms(2) OpWrite show ?thesis by simp
next
  case (OpResume len now timed_out)
  with assms(1) have r: "s' = snd (write_resume s len now timed_out)" "fo = None" by auto
  show ?thesis
  proof (cases timed_out)
    case True
    with r assms(2) OpResume show ?thesis by (simp add: write_resume_def)
  next
    case False
    obtain st s1 where w: "write_iteration s len now = (st, s1)" by (metis surj_pair)
    with False r have "s' = s1" by (simp add: write_resume_def)
    with write_iteration_inv[OF w] assms(2) OpResume r show ?thesis by simp
  qed
next
  case (OpPop n)
  with assms(1) obtain hm where "popStreamFrame ops s n = Some (fo, hm, s')" by auto
  from popStreamFrame_inv[OF this] assms(2) OpPop show ?thesis by simp
next
  case (OpLost f)
  with assms(1) have a: "queueRetransmission s f = Some s'" "fo = None" by auto
  then have "new_data_inv s' (written rest) = new_data_inv s (written rest) \<and> m_write_offset s' = m_write_offset s"
    by (auto simp: queueRetransmission_def new_data_inv_def pending_def next_frame_at_write_offset_def
        sender_event_def split: if_splits option.splits)
  with a assms(2) OpLost show ?thesis by simp
next
  case (OpAcked f)
  with assms(1) have a: "frameAcked s f = Some s'" "fo = None" by auto
  then have "new_data_inv s' (written rest) = new_data_inv s (written rest) \<and> m_write_offset s' = m_write_offset s"
    by (auto simp: frameAcked_def isNewlyCompleted_def Let_def split: if_splits)
  with a assms(2) OpAcked show ?thesis by simp
next
  case OpClose
  with assms show ?thesis by (auto simp: close_def)
next
  case OpCancel
  have "new_data_inv (cancelWrite s) (written rest) \<and> m_write_offset (cancelWrite s) = m_write_offset s"
    using assms(2) OpCancel
    by (auto simp: cancelWrite_def isNewlyCompleted_def Let_def new_data_inv_def pending_def
        next_frame_at_write_offset_def sender_event_def signalWrite_def split: option.splits)
  with assms(1) OpCancel show ?thesis by auto
next
  case OpShutdown
  with assms show ?thesis by (auto simp: closeForShutdown_def)
next
  case (OpUpdateSendWin limit)
  with assms show ?thesis by (auto simp: updateSendWin_def Let_def)
qed

lemma run_stream_tagged_frames:
  "run_stream ops s trace
     = map_option (\<lambda>(tagged, s'). (map snd tagged, s')) (run_stream_tagged ops s trace)"
  by (induction trace arbitrary: s) (auto split: option.splits)

lemma new_data_frames_simps [simp]:
  "new_data_frames [] = []"
  "new_data_frames ((True, f) # tagged) = new_data_frames tagged"
  "new_data_frames ((False, f) # tagged) = f # new_data_frames tagged"
  by (simp_all add: new_data_frames_def)

lemma run_stream_tagged_inv:
  assumes "run_stream_tagged ops s trace = Some (tagged, s')" "new_data_inv s (written trace)"
  shows "sorted (map offset (new_data_frames tagged))
       \<and> (\<forall>f \<in> set (new_data_frames tagged). m_write_offset s \<le> offset f)"
  using assms
proof (induction trace arbitrary: s tagged)
  case Nil
  then show ?case by simp
next
  case (Cons op rest)
  from Cons.prems(1) obtain fo s1 fs where
    st: "stream_step ops s op = Some (fo, s1)" and rn: "run_stream_tagged ops s1 rest = Some (fs, s')"
    and fr: "tagged = (case fo of None \<Rightarrow> [] | Some f \<Rightarrow> [(is_retransmission s, f)]) @ fs"
    by (auto split: option.splits)
  note step = stream_step_inv[OF st Cons.prems(2)]
  from Cons.IH[OF rn] step have ih: "sorted (map offset (new_data_frames fs))"
    "\<forall>f \<in> set (new_data_frames fs). m_write_offset s1 \<le> offset f"
    by simp_all
  show ?case
  proof (cases fo)
    case None
    with fr ih step show ?thesis by fastforce
  next
    case (Some f)
    show ?thesis
    proof (cases "is_retransmission s")
      case True
      with Some fr ih step show ?thesis by fastforce
    next
      case False
      with Some step have "offset f = m_write_offset s" by simp
      with False Some fr ih step show ?thesis by fastforce
    qed
  qed
qed

lemma retransmission_keeps_offset:
  assumes "m_retransmission_queue t = f # q" "\<not> m_canceled_write t" "\<not> m_shutdown t"
    "popStreamFrame ops t n = Some (Some g, hm, t')"
  shows "sf_offset g = sf_offset f"
proof -
  from assms have "\<exists>t1. maybeGetRetransmission t n = Some (g, hm, t1) \<or> (\<exists>h. maybeGetRetransmission t n = Some (g, h, t1))"
    by (auto simp: popStreamFrame_def popNewOrRetransmissitedStreamFrame_def
        split: option.splits if_splits prod.splits)
  then obtain t1 h where "maybeGetRetransmission t n = Some (g, h, t1)" by blast
  with assms(1) show ?thesis
    by (auto simp: maybeGetRetransmission_def maybeSplitOffFrame_def split: option.splits if_splits)
qed

lemma lossy_run_tagged:
  "map_option (\<lambda>(tagged, s). map (\<lambda>(retransmitted, f). (retransmitted, offset f)) tagged)
     (run_stream_tagged spec_flow_ops fresh_stream lossy_run)
     = Some [(False, 0), (False, 3), (True, 0), (False, 5)]"
  by (simp add: lossy_run_def two_writes_def is_retransmission_def stream_eval)

text \<open>
  Claim C9, as stated: the frames of successive \<open>popStreamFrame\<close> calls have non-decreasing
  offsets, even across retransmissions. Write 3 bytes, pop (offset 0), write 2 bytes, pop
  (offset 3), report the first frame lost, pop: the retransmitted frame has offset 0 again,
  so the offsets are 0, 3, 0.
\<close>

theorem C9_retransmission_counterexample:
  "map_option (\<lambda>(frames, s). map offset frames)
     (run_stream spec_flow_ops fresh_stream
        [OpWrite [1, 2, 3] 0, OpPop 1200, OpWrite [4, 5] 0, OpPop 1200, OpLost first_frame, OpPop 1200])
     = Some [0, 3, 0]
   \<and> \<not> sorted [0, 3, 0 :: nat]
   \<and> map_option fst (run_stream spec_flow_ops fresh_stream [OpWrite [1, 2, 3] 0, OpPop 1200])
       = Some [first_frame]"
  by (simp add: stream_eval)

text \<open>
  Claim C9, amended: in every run of a stream (writes, pops, losses, acknowledgements, window
  updates, close, cancel and shutdown in any order, for a stream whose buffered next frame
  starts at the write offset and whose bytes stay below \<open>2^64\<close>), the frames of new data, that
  is, the frames that successive \<open>popStreamFrame\<close> calls do not take from the retransmission
  queue, have non-decreasing offsets, also when retransmissions come in between. A frame
  taken from the retransmission queue carries the offset of the queue's first frame, that is,
  the offset it was queued with.
\<close>

theorem C9_popStreamFrame_offsets:
  assumes "run_stream ops s trace = Some (frames, s')"
    and "new_data_inv s (written trace)"
  shows "(\<exists>tagged. run_stream_tagged ops s trace = Some (tagged, s') \<and> map snd tagged = frames
            \<and> sorted (map offset (new_data_frames tagged)))
       \<and> (\<forall>t f q n g has_more t'.
             m_retransmission_queue t = f # q \<and> \<not> m_canceled_write t \<and> \<not> m_shutdown t
             \<and> popStreamFrame ops t n = Some (Some g, has_more, t')
             \<longrightarrow> sf_offset g = sf_offset f)"
proof -
  from assms(1) obtain tagged where
    t: "run_stream_tagged ops s trace = Some (tagged, s')" "map snd tagged = frames"
    by (auto simp: run_stream_tagged_frames)
  from run_stream_tagged_inv[OF t(1) assms(2)] t retransmission_keeps_offset[of _ _ _ ops]
  show ?thesis by blast
qed

theorem C9_popStreamFrame_offsets_witness:
  "new_data_inv fresh_stream (written lossy_run)
   \<and> (\<exists>frames s' tagged. run_stream spec_flow_ops fresh_stream lossy_run = Some (frames, s')
         \<and> run_stream_tagged spec_flow_ops fresh_stream lossy_run = Some (tagged, s')
         \<and> map snd tagged = frames
         \<and> map (\<lambda>(retransmitted, f). (retransmitted, offset f)) tagged
             = [(False, 0), (False, 3), (True, 0), (False, 5)]
         \<and> sorted (map offset (new_data_frames tagged)))"
proof -
  have b: "new_data_inv fresh_stream (written lossy_run)"
    by (simp add: lossy_run_def two_writes_def new_data_inv_def next_frame_at_write_offset_def
        pending_def fresh_stream_def new_QuicSndStream_def readAvailable_def)
  from lossy_run_tagged obtain tagged s' where
    r: "run_stream_tagged spec_flow_ops fresh_stream lossy_run = Some (tagged, s')"
       "map (\<lambda>(retransmitted, f). (retransmitted, offset f)) tagged
          = [(False, 0), (False, 3), (True, 0), (False, 5)]"
    by (auto simp: map_option_case split: option.splits)
  then have run: "run_stream spec_flow_ops fresh_stream lossy_run = Some (map snd tagged, s')"
    by (simp add: run_stream_tagged_frames)
  from C9_popStreamFrame_offsets[OF run b] r(1) have "sorted (map offset (new_data_frames tagged))"
    by auto
  with r run have "\<exists>frames s' tagged. run_stream spec_flow_ops fresh_stream lossy_run = Some (frames, s')
         \<and> run_stream_tagged spec_flow_ops fresh_stream lossy_run = Some (tagged, s')
         \<and> map snd tagged = frames
         \<and> map (\<lambda>(retransmitted, f). (retransmitted, offset f)) tagged
             = [(False, 0), (False, 3), (True, 0), (False, 5)]
         \<and> sorted (map offset (new_data_frames tagged))"
    by (intro exI[of _ "map snd tagged"] exI[of _ s'] exI[of _ tagged]) simp
  with b show ?thesis by (intro conjI)
qed

end
